theory Spec2Isabelle
  imports Main "HOL-Library.Word"
begin

section \<open>Values shared by both packages\<close>

text \<open>
  A Go \<^verbatim>\<open>error\<close> is modelled by its message; \<^verbatim>\<open>fmt.Errorf\<close> with \<^verbatim>\<open>%w\<close> is
  concatenation of messages. An instant of \<^verbatim>\<open>time.Time\<close> is a natural number counted
  from Go's zero time, so that \<^verbatim>\<open>IsZero\<close> is the test against \<open>0\<close>.
\<close>

type_synonym error = string

type_synonym instant = nat

text \<open>
  A \<^verbatim>\<open>context.Context\<close> is kept as the term that built it: the only operation the code
  modelled here applies to one is \<^verbatim>\<open>context.WithTimeout\<close> (the duration in seconds).
\<close>

datatype Context = Background | WithTimeout Context nat

text \<open>
  A value of Go's \<^verbatim>\<open>any\<close>, as the expression runtime returns it. The constructors are
  the dynamic types the type switches of the code tell apart; \<open>GOther\<close> stands for a value
  of any further dynamic type (a \<^verbatim>\<open>map[string]string\<close>, an \<^verbatim>\<open>int64\<close>, a struct, ...) and
  carries the name of that type. Floats are kept as their bit patterns.
\<close>

datatype goval =
    GString string
  | GInt int
  | GFloat64 "64 word"
  | GFloat32 "32 word"
  | GMap "(string \<times> goval) list"
  | GSlice "goval list"
  | GNil
  | GBool bool
  | GOther string

section \<open>Package apiserver: the polling API client (papi.go)\<close>

subsection \<open>Data\<close>

text \<open>
  \<^verbatim>\<open>Header\<close> and \<^verbatim>\<open>Message\<close> with the fields \<^verbatim>\<open>handleEvent\<close> reads. The field
  \<^verbatim>\<open>Header.Source\<close> is \<open>HeaderSource\<close> here and \<^verbatim>\<open>Message.Header\<close> is \<open>MessageHeader\<close>;
  a nil pointer is \<open>None\<close>.
\<close>

record Source =
  User :: string

record Header =
  OperationType :: string
  OperationCmd :: string
  HeaderSource :: "Source option"

record Message =
  MessageHeader :: "Header option"
  MessageData :: goval

text \<open>A \<^verbatim>\<open>longpollclient.Event\<close>, with the two fields papi.go reads.\<close>

record LongPollEvent =
  Data :: string
  RequestId :: string

text \<open>
  One constructor for each logging call of papi.go that the modelled functions make, with
  the arguments of the call (and the \<^verbatim>\<open>request-id\<close> field where the logger carries one).
\<close>

datatype papi_log =
    MessageReceived string string
  | CallingOperation string string
  | ReceivedEvents nat
  | FailedToHandleEvent string error
  | HandledEvent nat nat
  | FinishedHandlingEvents
  | FailedToUpdateLastTimestamp string error
  | SetLastTimestamp string instant
  | SendingDeletedDecisionsFailed error

text \<open>
  The part of \<^verbatim>\<open>Papi\<close> the modelled functions act on: the lines written to
  \<^verbatim>\<open>p.Logger\<close>, the configuration items of the database behind \<^verbatim>\<open>p.DBClient\<close>, and
  \<open>world\<close>, everything else the collaborators of this file can reach (the long-poll
  transport, the central API, the channels).
\<close>

record 'w Papi =
  Logger :: "papi_log list"
  DBClient :: "string \<rightharpoonup> string"
  world :: 'w

text \<open>
  The collaborators whose code is in other files, as parameters: \<^verbatim>\<open>json.Unmarshal\<close> into a
  \<^verbatim>\<open>Message\<close>, the three operation functions of \<^verbatim>\<open>operationMap\<close> (each receives the
  message, the \<^verbatim>\<open>*Papi\<close> and the sync flag, and may change whatever \<^verbatim>\<open>Papi\<close> holds),
  \<^verbatim>\<open>p.Client.PullOnce\<close>, \<^verbatim>\<open>p.apiClient.DecisionDelete.Add\<close> and \<^verbatim>\<open>Time.MarshalText\<close>.
\<close>

record 'w Externals =
  Unmarshal :: "string \<Rightarrow> error + Message"
  DecisionCmd :: "Message \<Rightarrow> 'w Papi \<Rightarrow> bool \<Rightarrow> error option \<times> 'w Papi"
  AlertCmd :: "Message \<Rightarrow> 'w Papi \<Rightarrow> bool \<Rightarrow> error option \<times> 'w Papi"
  ManagementCmd :: "Message \<Rightarrow> 'w Papi \<Rightarrow> bool \<Rightarrow> error option \<times> 'w Papi"
  ClientPullOnce :: "Context \<Rightarrow> instant \<Rightarrow> 'w \<Rightarrow> (error + LongPollEvent list) \<times> 'w"
  DecisionDeleteAdd :: "Context \<Rightarrow> string list \<Rightarrow> 'w \<Rightarrow> error option \<times> 'w"
  MarshalText :: "instant \<Rightarrow> string"

definition PapiPullKey :: string where
  "PapiPullKey = ''papi:last_pull''"

definition logf :: "papi_log \<Rightarrow> 'w Papi \<Rightarrow> 'w Papi" where
  "logf m p = p\<lparr>Logger := Logger p @ [m]\<rparr>"

definition operationMap ::
  "'w Externals \<Rightarrow> string \<Rightarrow> (Message \<Rightarrow> 'w Papi \<Rightarrow> bool \<Rightarrow> error option \<times> 'w Papi) option" where
  "operationMap x t =
     (if t = ''decision'' then Some (DecisionCmd x)
      else if t = ''alert'' then Some (AlertCmd x)
      else if t = ''management'' then Some (ManagementCmd x)
      else None)"

subsection \<open>handleEvent\<close>

definition handleEvent ::
  "'w Externals \<Rightarrow> LongPollEvent \<Rightarrow> bool \<Rightarrow> 'w Papi \<Rightarrow> error option \<times> 'w Papi" where
  "handleEvent x event sync p =
     (let p1 = logf (MessageReceived (RequestId event) (Data event)) p in
      case Unmarshal x (Data event) of
        Inl err \<Rightarrow>
          (Some (''polling papi message format is not compatible: '' @ Data event @ '': '' @ err), p1)
      | Inr message \<Rightarrow>
          (case MessageHeader message of
             None \<Rightarrow> (Some ''no header in message, skipping'', p1)
           | Some header \<Rightarrow>
               (case HeaderSource header of
                  None \<Rightarrow> (Some ''no source user in header message, skipping'', p1)
                | Some src \<Rightarrow>
                    (case operationMap x (OperationType header) of
                       None \<Rightarrow>
                         (Some (''operation '' @ [CHR 0x27] @ OperationType header @ [CHR 0x27]
                                @ '' unknown, continue''), p1)
                     | Some operationFunc \<Rightarrow>
                         (let p2 = logf (CallingOperation (RequestId event) (OperationType header)) p1 in
                          case operationFunc message p2 sync of
                            (Some err, p3) \<Rightarrow>
                              (Some ([CHR 0x27] @ OperationType header @ '' '' @ OperationCmd header
                                     @ '' failed: '' @ err), p3)
                          | (None, p3) \<Rightarrow> (None, p3))))))"

subsection \<open>reverse and PullOnce\<close>

text \<open>
  \<^verbatim>\<open>reverse\<close> copies the slice and swaps in place, \<^verbatim>\<open>i\<close> running from
  \<^verbatim>\<open>len(a)/2 - 1\<close> down to \<^verbatim>\<open>0\<close>. The first argument of \<open>reverse_loop\<close> is \<^verbatim>\<open>i + 1\<close>,
  the number of swaps still to make, so that the loop ends at \<open>0\<close> where the signed
  \<^verbatim>\<open>i\<close> of the code reaches \<^verbatim>\<open>-1\<close>. Both indices of a swap are in range.
\<close>

fun reverse_loop :: "nat \<Rightarrow> 'a list \<Rightarrow> 'a list" where
  "reverse_loop 0 a = a"
| "reverse_loop (Suc i) a =
     (let opp = length a - 1 - i in reverse_loop i (a[i := a ! opp, opp := a ! i]))"

definition reverse :: "'a list \<Rightarrow> 'a list" where
  "reverse s = (let a = s in reverse_loop (length a div 2) a)"

text \<open>The loop of \<^verbatim>\<open>PullOnce\<close> over \<^verbatim>\<open>reversedEvents\<close>, with its index \<^verbatim>\<open>i\<close>.\<close>

fun PullOnce_loop ::
  "'w Externals \<Rightarrow> bool \<Rightarrow> nat \<Rightarrow> nat \<Rightarrow> LongPollEvent list \<Rightarrow> 'w Papi \<Rightarrow> 'w Papi" where
  "PullOnce_loop x sync eventsCount i [] p = p"
| "PullOnce_loop x sync eventsCount i (event # rest) p =
     (case handleEvent x event sync p of
        (Some err, p1) \<Rightarrow>
          PullOnce_loop x sync eventsCount (i + 1) rest
            (logf (HandledEvent i eventsCount) (logf (FailedToHandleEvent (RequestId event) err) p1))
      | (None, p1) \<Rightarrow>
          PullOnce_loop x sync eventsCount (i + 1) rest (logf (HandledEvent i eventsCount) p1))"

definition PullOnce ::
  "'w Externals \<Rightarrow> Context \<Rightarrow> instant \<Rightarrow> bool \<Rightarrow> 'w Papi \<Rightarrow> error option \<times> 'w Papi" where
  "PullOnce x ctx since sync p =
     (case ClientPullOnce x ctx since (world p) of
        (Inl err, w1) \<Rightarrow> (Some err, p\<lparr>world := w1\<rparr>)
      | (Inr events, w1) \<Rightarrow>
          (let reversedEvents = reverse events;
               eventsCount = length events;
               p1 = logf (ReceivedEvents eventsCount) (p\<lparr>world := w1\<rparr>);
               p2 = PullOnce_loop x sync eventsCount 0 reversedEvents p1
           in (None, logf FinishedHandlingEvents p2)))"

text \<open>
  The requirement of the specification, in its words: the events of a batch are handed to
  \<open>handleEvent\<close> one after the other in the order of the list given (for a batch that
  arrived newest first, this list is the batch turned round), a failure is logged for the
  event it belongs to, and every event of the list is handled whatever happened to the
  ones before it.
\<close>

definition dispatch_one ::
  "'w Externals \<Rightarrow> bool \<Rightarrow> nat \<Rightarrow> 'w Papi \<Rightarrow> nat \<times> LongPollEvent \<Rightarrow> 'w Papi" where
  "dispatch_one x sync n p ie =
     (let handled = handleEvent x (snd ie) sync p;
          reported = (case fst handled of
                        None \<Rightarrow> snd handled
                      | Some err \<Rightarrow> logf (FailedToHandleEvent (RequestId (snd ie)) err) (snd handled))
      in logf (HandledEvent (fst ie) n) reported)"

definition dispatch_in_order ::
  "'w Externals \<Rightarrow> bool \<Rightarrow> nat \<Rightarrow> LongPollEvent list \<Rightarrow> 'w Papi \<Rightarrow> 'w Papi" where
  "dispatch_in_order x sync n events p = foldl (dispatch_one x sync n) p (enumerate 0 events)"

subsection \<open>The event case of Pull\<close>

text \<open>
  Modelled from the spec: the checkpoint store's \<^verbatim>\<open>Set(key, value) -> error\<close>
  (\<^verbatim>\<open>p.DBClient.SetConfigItem\<close>; package database is not among the files). The first
  argument is the failure the store answers this write with, if any; a write that does
  not fail stores the value under the key.
\<close>

definition SetConfigItem ::
  "error option \<Rightarrow> string \<Rightarrow> string \<Rightarrow> 'w Papi \<Rightarrow> error option \<times> 'w Papi" where
  "SetConfigItem fault key v p =
     (case fault of
        Some err \<Rightarrow> (Some err, p)
      | None \<Rightarrow> (None, p\<lparr>DBClient := (DBClient p)(key \<mapsto> v)\<rparr>))"

text \<open>
  The body of \<^verbatim>\<open>case event := <-papiChan\<close> in the loop of \<^verbatim>\<open>Pull\<close>, as a step on the
  pair of the local \<^verbatim>\<open>lastTimestamp\<close> and the \<^verbatim>\<open>Papi\<close>. \<open>now\<close> is what
  \<^verbatim>\<open>time.Now().UTC()\<close> returns. Every path of the body goes on to the next iteration of
  the loop, with the pair returned here.
\<close>

definition Pull_event ::
  "'w Externals \<Rightarrow> error option \<Rightarrow> instant \<Rightarrow> LongPollEvent \<Rightarrow> instant \<times> 'w Papi
     \<Rightarrow> instant \<times> 'w Papi" where
  "Pull_event x fault now event s =
     (let newTime = now;
          binTime = MarshalText x newTime;
          lastTimestamp = newTime
      in case handleEvent x event False (snd s) of
           (Some err, p1) \<Rightarrow>
             (lastTimestamp, logf (FailedToHandleEvent (RequestId event) err) p1)
         | (None, p1) \<Rightarrow>
             (case SetConfigItem fault PapiPullKey binTime p1 of
                (Some err, p2) \<Rightarrow>
                  (lastTimestamp,
                   logf (SetLastTimestamp (RequestId event) newTime)
                     (logf (FailedToUpdateLastTimestamp (RequestId event) err) p2))
              | (None, p2) \<Rightarrow>
                  (lastTimestamp, logf (SetLastTimestamp (RequestId event) newTime) p2)))"

subsection \<open>SendDeletedDecisions\<close>

definition batchSize :: nat where
  "batchSize = 50"

text \<open>The slice expression \<^verbatim>\<open>cache[start:stop]\<close>, for \<^verbatim>\<open>start <= stop <= len(cache)\<close>.\<close>

definition slice :: "'a list \<Rightarrow> nat \<Rightarrow> nat \<Rightarrow> 'a list" where
  "slice xs start stop = take (stop - start) (drop start xs)"

definition sendDeletedDecisionsBatch ::
  "'w Externals \<Rightarrow> Context \<Rightarrow> string list \<Rightarrow> 'w Papi \<Rightarrow> error option \<times> 'w Papi" where
  "sendDeletedDecisionsBatch x ctx decisions p =
     (let ctxBatch = WithTimeout ctx 5 in
      case DecisionDeleteAdd x ctxBatch decisions (world p) of
        (Some err, w1) \<Rightarrow> (Some err, p\<lparr>world := w1\<rparr>)
      | (None, w1) \<Rightarrow> (None, p\<lparr>world := w1\<rparr>))"

function SendDeletedDecisions_loop ::
  "'w Externals \<Rightarrow> Context \<Rightarrow> string list \<Rightarrow> nat \<Rightarrow> 'w Papi \<Rightarrow> 'w Papi" where
  "SendDeletedDecisions_loop x ctx cache start p =
     (if start < length cache then
        (let stop = min (start + batchSize) (length cache) in
         case sendDeletedDecisionsBatch x ctx (slice cache start stop) p of
           (Some err, p1) \<Rightarrow> logf (SendingDeletedDecisionsFailed err) p1
         | (None, p1) \<Rightarrow> SendDeletedDecisions_loop x ctx cache (start + batchSize) p1)
      else p)"
  by pat_completeness auto
termination
  by (relation "measure (\<lambda>(x, ctx, cache, start, p). length cache - start)")
     (auto simp: batchSize_def)

definition SendDeletedDecisions :: "'w Externals \<Rightarrow> Context \<Rightarrow> string list \<Rightarrow> 'w Papi \<Rightarrow> 'w Papi" where
  "SendDeletedDecisions x ctx cacheOrig p = (let cache = cacheOrig in SendDeletedDecisions_loop x ctx cache 0 p)"

text \<open>
  The requirement of the specification, in its words: the identifiers are split into
  consecutive chunks of a fixed size, and the chunks are sent in order, each as a call of
  its own under a timeout of five seconds, until a call fails; the failure is logged and
  the chunks after it are not sent.
\<close>

function chunks :: "nat \<Rightarrow> 'a list \<Rightarrow> 'a list list" where
  "chunks n xs = (if n = 0 \<or> xs = [] then [] else take n xs # chunks n (drop n xs))"
  by pat_completeness auto
termination
  by (relation "measure (\<lambda>(n, xs). length xs)") auto

fun send_chunks :: "'w Externals \<Rightarrow> Context \<Rightarrow> string list list \<Rightarrow> 'w Papi \<Rightarrow> 'w Papi" where
  "send_chunks x ctx [] p = p"
| "send_chunks x ctx (c # cs) p =
     (case DecisionDeleteAdd x (WithTimeout ctx 5) c (world p) of
        (Some err, w1) \<Rightarrow> logf (SendingDeletedDecisionsFailed err) (p\<lparr>world := w1\<rparr>)
      | (None, w1) \<Rightarrow> send_chunks x ctx cs (p\<lparr>world := w1\<rparr>))"

subsection \<open>A test double of the collaborators\<close>

text \<open>
  Concrete collaborators on which the theorems below are run: every operation function
  records the command it was given and writes a configuration item of its own, decoding
  fails on one payload, the transport returns a batch of three events, newest first, and
  the central API records each request it receives and refuses a request that starts
  with one identifier.
\<close>

record demo_world =
  handled :: "string list"
  requests :: "(Context \<times> string list) list"

definition demo_cmd :: "Message \<Rightarrow> demo_world Papi \<Rightarrow> bool \<Rightarrow> error option \<times> demo_world Papi" where
  "demo_cmd m p sync =
     (let cmd = (case MessageHeader m of None \<Rightarrow> [] | Some h \<Rightarrow> OperationCmd h)
      in (if cmd = ''fail'' then Some ''refused'' else None,
          p\<lparr>world := (world p)\<lparr>handled := handled (world p) @ [cmd]\<rparr>,
            DBClient := (DBClient p)(''seen'' \<mapsto> cmd)\<rparr>))"

definition demo_externals :: "demo_world Externals" where
  "demo_externals =
     \<lparr>Unmarshal = (\<lambda>d. if d = ''garbled'' then Inl ''unexpected end of input''
                        else Inr \<lparr>MessageHeader =
                                    Some \<lparr>OperationType = ''decision'', OperationCmd = d,
                                          HeaderSource = Some \<lparr>User = ''console''\<rparr>\<rparr>,
                                  MessageData = GNil\<rparr>),
      DecisionCmd = demo_cmd,
      AlertCmd = demo_cmd,
      ManagementCmd = demo_cmd,
      ClientPullOnce = (\<lambda>ctx since w.
         (Inr [\<lparr>Data = ''third'', RequestId = ''r3''\<rparr>,
               \<lparr>Data = ''garbled'', RequestId = ''r2''\<rparr>,
               \<lparr>Data = ''first'', RequestId = ''r1''\<rparr>], w)),
      DecisionDeleteAdd = (\<lambda>ctx ids w.
         (if ids \<noteq> [] \<and> hd ids = ''unknown'' then Some ''not found'' else None,
          w\<lparr>requests := requests w @ [(ctx, ids)]\<rparr>)),
      MarshalText = (\<lambda>t. if t = 0 then ''0001-01-01T00:00:00Z'' else ''2024-05-01T10:00:00Z'')\<rparr>"

definition demo_papi :: "demo_world Papi" where
  "demo_papi =
     \<lparr>Logger = [],
      DBClient = [PapiPullKey \<mapsto> ''0001-01-01T00:00:00Z''],
      world = \<lparr>handled = [], requests = []\<rparr>\<rparr>"

definition demo_cache :: "string list" where
  "demo_cache = replicate 125 ''7f3a''"


section \<open>Package types: the event\<close>

text \<open>
  \<^verbatim>\<open>types.Event\<close> with the fields the functions modelled below read or write. The field
  \<^verbatim>\<open>Event.Line\<close> is \<open>EventLine\<close> here. A Go map is \<open>None\<close> when it is nil: reading a nil
  map finds no key, writing to it panics.
\<close>

record Line =
  Raw :: string
  Src :: string
  Module :: string
  Labels :: "(string \<rightharpoonup> string) option"

record Event =
  Type :: int
  Stage :: string
  EventLine :: Line
  Parsed :: "(string \<rightharpoonup> string) option"
  Enriched :: "(string \<rightharpoonup> string) option"
  Unmarshaled :: "(string \<rightharpoonup> goval) option"
  Time :: instant
  Process :: bool
  Meta :: "(string \<rightharpoonup> string) option"

definition LOG :: int where
  "LOG = 0"

section \<open>Package parser: runtime.go and whitelist.go\<close>

subsection \<open>Data\<close>

text \<open>
  \<^verbatim>\<open>UnixParserCtx\<close>, \<^verbatim>\<open>Whitelist\<close>, \<^verbatim>\<open>ExtraField\<close> and \<^verbatim>\<open>Node\<close> with the fields the
  modelled functions read. \<open>'p\<close> is the type of a compiled program (\<^verbatim>\<open>*vm.Program\<close>).
  Renamed fields: \<^verbatim>\<open>ExtraField.Parsed\<close>, \<^verbatim>\<open>.Meta\<close> and \<^verbatim>\<open>.Enriched\<close> are
  \<open>StaticParsed\<close>, \<open>StaticMeta\<close> and \<open>StaticEnriched\<close>; \<^verbatim>\<open>Node.Stage\<close> and
  \<^verbatim>\<open>Node.Profiling\<close> are \<open>NodeStage\<close> and \<open>NodeProfiling\<close>; \<open>Registered\<close> is
  \<^verbatim>\<open>n.EnrichFunctions.Registered\<close>, each entry the \<^verbatim>\<open>EnrichFunc\<close> of the plugin: it
  receives the value and the event, may change the event, and returns the entries to
  merge (a Go map, here the list of its pairs) and an error.
\<close>

record UnixParserCtx =
  Stages :: "string list"
  Profiling :: bool

record 'p Whitelist =
  Reason :: string
  Exprs :: "string list"
  B_Exprs :: "'p list"


type_synonym EnrichFunc = "string \<Rightarrow> Event \<Rightarrow> (string \<times> string) list \<times> error option \<times> Event"

record 'p Node =
  Name :: string
  rn :: string
  NodeStage :: string
  OnSuccess :: string
  NodeProfiling :: bool
  NodeWhitelist :: "'p Whitelist"
  Registered :: "string \<Rightarrow> EnrichFunc option"

text \<open>
  The collaborators whose code is in other files, as parameters. \<open>Run\<close> is
  \<^verbatim>\<open>exprhelpers.Run\<close> on a program and an environment (here the events the environment
  names); it returns a value or an error and leaves the event as it is.
  \<open>process\<close> is \<^verbatim>\<open>(*Node).process\<close>: it receives the node, the event, the context and
  the environment, may change the event and anything in \<open>'w\<close>, the state outside the
  event, and returns \<^verbatim>\<open>(bool, error)\<close>. \<open>SetTargetByName\<close> walks the event by reflection
  over struct layouts declared in files that are not at hand (\<^verbatim>\<open>Line\<close>,
  \<^verbatim>\<open>AppsecEvent\<close>, \<^verbatim>\<open>models.Alert\<close>); it is a parameter that returns the flag and the
  event. \<open>Sprintf_f64\<close> and \<open>Sprintf_f32\<close> are \<^verbatim>\<open>fmt.Sprintf("%f", out)\<close>.
\<close>

record ('p, 'w) ParserExternals =
  Run :: "'p \<Rightarrow> (string \<rightharpoonup> Event) \<Rightarrow> error + goval"
  process :: "'p Node \<Rightarrow> Event \<Rightarrow> UnixParserCtx \<Rightarrow> (string \<rightharpoonup> Event) \<Rightarrow> 'w
                \<Rightarrow> (error + bool) \<times> Event \<times> 'w"
  SetTargetByName :: "string \<Rightarrow> string \<Rightarrow> Event \<Rightarrow> bool \<times> Event"
  Sprintf_f64 :: "64 word \<Rightarrow> string"
  Sprintf_f32 :: "32 word \<Rightarrow> string"

subsection \<open>stageidx and Parse\<close>

text \<open>The loop of \<^verbatim>\<open>stageidx\<close> over the stages that remain, \<open>i\<close> the index of the first.\<close>

fun stageidx_from :: "int \<Rightarrow> string \<Rightarrow> string list \<Rightarrow> int" where
  "stageidx_from i stage [] = - 1"
| "stageidx_from i stage (v # vs) = (if stage = v then i else stageidx_from (i + 1) stage vs)"

definition stageidx :: "string \<Rightarrow> string list \<Rightarrow> int" where
  "stageidx stage stages = stageidx_from 0 stage stages"

text \<open>
  One constructor for each logging call of \<^verbatim>\<open>Parse\<close>, with the arguments of the call.
  The calls on \<^verbatim>\<open>clog\<close> start with its two fields, \<^verbatim>\<open>node-name\<close> and \<^verbatim>\<open>stage\<close>.
\<close>

datatype parse_log =
    NoStageSetTo string
  | InputLine string
  | SkippingStage string string
  | NodeStageCurrentStage string string
  | EventNotParsed string string
  | ProcessingNode string string nat nat string
  | ErrorWhileProcessingNode string string error
  | NodeRet string string string bool
  | NodeSuccessful string string string
  | NodeMovedStage string string
  | LogDidntFinishStage string

text \<open>
  What a call of \<^verbatim>\<open>Parse\<close> has in hand: the local \<^verbatim>\<open>event\<close>, the lines logged so far
  and the state outside the event. With \<^verbatim>\<open>ParseDump\<close> set, \<^verbatim>\<open>Parse\<close> also appends to the
  package variable \<^verbatim>\<open>StageParseCache\<close>; it never reads the cache back, and the cache is
  left out.
\<close>

record 'w ParseState =
  pevent :: Event
  plog :: "parse_log list"
  pworld :: 'w

definition plogf :: "parse_log \<Rightarrow> 'w ParseState \<Rightarrow> 'w ParseState" where
  "plogf m st = st\<lparr>plog := plog st @ [m]\<rparr>"

datatype 'w nodes_result =
    NodesError error (nodes_state: "'w ParseState")
  | NodesDone bool (nodes_state: "'w ParseState")

datatype 'w stages_result =
    StagesReturn "error option" (stages_state: "'w ParseState")
  | StagesDone (stages_state: "'w ParseState")

text \<open>
  The loop \<^verbatim>\<open>for idx := range nodes\<close> inside one stage: \<open>nodesLen\<close> is \<^verbatim>\<open>len(nodes)\<close>,
  \<open>idx\<close> the index of the first node that remains, \<open>isStageOK\<close> the flag so far.
  \<open>NodesError\<close> is the \<^verbatim>\<open>return event, err\<close> inside the loop; \<open>NodesDone\<close> is the end of
  the loop, by exhaustion or by \<^verbatim>\<open>break\<close>.
\<close>

fun nodes_loop ::
  "('p, 'w) ParserExternals \<Rightarrow> UnixParserCtx \<Rightarrow> string \<Rightarrow> nat \<Rightarrow> nat \<Rightarrow> 'p Node list \<Rightarrow> bool
     \<Rightarrow> 'w ParseState \<Rightarrow> 'w nodes_result" where
  "nodes_loop x ctx stage nodesLen idx [] isStageOK st = NodesDone isStageOK st"
| "nodes_loop x ctx stage nodesLen idx (node # rest) isStageOK st =
     (if Stage (pevent st) \<noteq> NodeStage node then
        nodes_loop x ctx stage nodesLen (idx + 1) rest isStageOK st
      else
        (let name = rn node;
             stageField = Stage (pevent st);
             st1 = plogf (ProcessingNode name stageField idx nodesLen (rn node)) st;
             node1 = (if Profiling ctx then node\<lparr>NodeProfiling := True\<rparr> else node)
         in case process x node1 (pevent st1) ctx [''evt'' \<mapsto> pevent st1] (pworld st1) of
              (Inl err, event1, w1) \<Rightarrow>
                NodesError err
                  (plogf (ErrorWhileProcessingNode name stageField err)
                     (st1\<lparr>pevent := event1, pworld := w1\<rparr>))
            | (Inr ret, event1, w1) \<Rightarrow>
                (let st2 = plogf (NodeRet name stageField (rn node) ret)
                             (st1\<lparr>pevent := event1, pworld := w1\<rparr>);
                     isStageOK1 = (if ret then True else isStageOK)
                 in if ret \<and> OnSuccess node = ''next_stage'' then
                      NodesDone isStageOK1 (plogf (NodeSuccessful name stageField stage) st2)
                    else if Stage (pevent st2) \<noteq> stage then
                      NodesDone isStageOK1 (plogf (NodeMovedStage name stageField) st2)
                    else nodes_loop x ctx stage nodesLen (idx + 1) rest isStageOK1 st2)))"

text \<open>
  The loop \<^verbatim>\<open>for _, stage := range ctx.Stages\<close> over the stages that remain.
  \<open>StagesReturn\<close> is a \<^verbatim>\<open>return\<close> inside the loop, \<open>StagesDone\<close> the end of the loop.
\<close>

fun stages_loop ::
  "('p, 'w) ParserExternals \<Rightarrow> UnixParserCtx \<Rightarrow> 'p Node list \<Rightarrow> string list \<Rightarrow> 'w ParseState
     \<Rightarrow> 'w stages_result" where
  "stages_loop x ctx nodes [] st = StagesDone st"
| "stages_loop x ctx nodes (stage # rest) st =
     (if stageidx (Stage (pevent st)) (Stages ctx) > stageidx stage (Stages ctx) then
        stages_loop x ctx nodes rest (plogf (SkippingStage (Stage (pevent st)) stage) st)
      else
        (let st1 = plogf (NodeStageCurrentStage (Stage (pevent st)) stage) st
         in if Stage (pevent st1) \<noteq> stage then
              StagesReturn None
                ((plogf (EventNotParsed stage (Stage (pevent st1))) st1)
                   \<lparr>pevent := (pevent st1)\<lparr>Process := False\<rparr>\<rparr>)
            else
              (case nodes_loop x ctx stage (length nodes) 0 nodes False st1 of
                 NodesError err st2 \<Rightarrow> StagesReturn (Some err) st2
               | NodesDone isStageOK st2 \<Rightarrow>
                   if \<not> isStageOK then
                     StagesReturn None
                       ((plogf (LogDidntFinishStage (Stage (pevent st2))) st2)
                          \<lparr>pevent := (pevent st2)\<lparr>Process := False\<rparr>\<rparr>)
                   else stages_loop x ctx nodes rest st2)))"

text \<open>
  The statements of \<^verbatim>\<open>Parse\<close> before the loop; \<open>now\<close> is \<^verbatim>\<open>time.Now().UTC()\<close>. Each
  conditional assignment \<^verbatim>\<open>if c { event.F = v }\<close> is the update of \<^verbatim>\<open>F\<close> to \<^verbatim>\<open>v\<close> if
  \<^verbatim>\<open>c\<close> and to its own value otherwise.
\<close>

definition Parse_enter :: "UnixParserCtx \<Rightarrow> instant \<Rightarrow> Event \<Rightarrow> 'w \<Rightarrow> 'w ParseState" where
  "Parse_enter ctx now xp w =
     (let event = xp;
          noStage = (Stage event = [] \<and> length (Stages ctx) > 0);
          event = event\<lparr>Stage := (if noStage then Stages ctx ! 0 else Stage event)\<rparr>;
          lines0 = (if noStage then [NoStageSetTo (Stage event)] else []);
          event = event\<lparr>Process := False\<rparr>;
          event = event\<lparr>Time := (if Time event = 0 then now else Time event)\<rparr>;
          event = event\<lparr>Parsed := (if Parsed event = None then Some Map.empty else Parsed event)\<rparr>;
          event = event\<lparr>Enriched := (if Enriched event = None then Some Map.empty else Enriched event)\<rparr>;
          event = event\<lparr>Meta := (if Meta event = None then Some Map.empty else Meta event)\<rparr>;
          event = event\<lparr>Unmarshaled :=
                    (if Unmarshaled event = None then Some Map.empty else Unmarshaled event)\<rparr>;
          lines1 = (if Type event = LOG then lines0 @ [InputLine (Raw (EventLine event))] else lines0)
      in \<lparr>pevent = event, plog = lines1, pworld = w\<rparr>)"

definition Parse ::
  "('p, 'w) ParserExternals \<Rightarrow> instant \<Rightarrow> UnixParserCtx \<Rightarrow> Event \<Rightarrow> 'p Node list \<Rightarrow> 'w
     \<Rightarrow> 'w ParseState \<times> error option" where
  "Parse x now ctx xp nodes w =
     (case stages_loop x ctx nodes (Stages ctx) (Parse_enter ctx now xp w) of
        StagesReturn err st \<Rightarrow> (st, err)
      | StagesDone st \<Rightarrow> (st\<lparr>pevent := (pevent st)\<lparr>Process := True\<rparr>\<rparr>, None))"



definition node_call ::
  "('p, 'w) ParserExternals \<Rightarrow> UnixParserCtx \<Rightarrow> 'p Node \<Rightarrow> Event \<Rightarrow> 'w \<Rightarrow> (error + bool) \<times> Event \<times> 'w" where
  "node_call x ctx node e u =
     process x (if Profiling ctx then node\<lparr>NodeProfiling := True\<rparr> else node) e ctx [''evt'' \<mapsto> e] u"




text \<open>
  Nodes of a stage, on the events and outside states that satisfy an invariant \<open>I\<close>. No
  node matches when every node of the stage, called on such an event of the stage,
  returns false without error, and \<open>I\<close> holds again if the event is still in the stage.
  Nodes go on when each of them, so called, returns without error, leaves the event in the
  stage with \<open>I\<close> again, and is not a match of a node whose \<^verbatim>\<open>OnSuccess\<close> is
  \<^verbatim>\<open>next_stage\<close>: the loop over the nodes continues after it. A node fails with an
  error when, so called, it returns that error.
\<close>

definition no_node_matches ::
  "('p, 'w) ParserExternals \<Rightarrow> UnixParserCtx \<Rightarrow> string \<Rightarrow> (Event \<Rightarrow> 'w \<Rightarrow> bool) \<Rightarrow> 'p Node list \<Rightarrow> bool" where
  "no_node_matches x ctx stage I nodes =
     (\<forall>node \<in> set nodes. NodeStage node = stage \<longrightarrow>
        (\<forall>e u. I e u \<and> Stage e = stage \<longrightarrow>
           (\<exists>e1 u1. node_call x ctx node e u = (Inr False, e1, u1)
              \<and> (Stage e1 = stage \<longrightarrow> I e1 u1))))"

definition nodes_go_on ::
  "('p, 'w) ParserExternals \<Rightarrow> UnixParserCtx \<Rightarrow> string \<Rightarrow> (Event \<Rightarrow> 'w \<Rightarrow> bool) \<Rightarrow> 'p Node list \<Rightarrow> bool" where
  "nodes_go_on x ctx stage I nodes =
     (\<forall>node \<in> set nodes. NodeStage node = stage \<longrightarrow>
        (\<forall>e u. I e u \<and> Stage e = stage \<longrightarrow>
           (\<exists>ret e1 u1. node_call x ctx node e u = (Inr ret, e1, u1)
              \<and> Stage e1 = stage \<and> I e1 u1
              \<and> \<not> (ret \<and> OnSuccess node = ''next_stage''))))"

definition node_fails ::
  "('p, 'w) ParserExternals \<Rightarrow> UnixParserCtx \<Rightarrow> string \<Rightarrow> (Event \<Rightarrow> 'w \<Rightarrow> bool) \<Rightarrow> 'p Node \<Rightarrow> error \<Rightarrow> bool" where
  "node_fails x ctx stage I node err =
     (\<forall>e u. I e u \<and> Stage e = stage \<longrightarrow> fst (node_call x ctx node e u) = Inl err)"

subsection \<open>ProcessStatics\<close>




text \<open>
  One constructor for each logging call of \<^verbatim>\<open>ProcessStatics\<close> on \<^verbatim>\<open>clog\<close>, with the
  arguments of the call, and the level of each call (\<^verbatim>\<open>Warnf\<close> and \<^verbatim>\<open>Warningf\<close> are
  the same level).
\<close>

datatype statics_log =
    FailedToRunRunTimeValue error
  | ExpressionReturnedMap string
  | ExpressionReturnedArray string
  | ExpressionReturnedNil string
  | UnexpectedReturnType string goval
  | EmptyValueSkip string
  | FoundMethod string
  | MethodReturnedError string error
  | MethodReturnedEntries string string nat
  | MethodEmptyResponse string string
  | EnrichedEntry string string
  | MethodNotInitialized string
  | MethodDoesntExist string
  | ParsedAssigned string string
  | MetaAssigned string string
  | EnrichedAssigned string string
  | UnableToSetValue string
  | TargetAssigned string string
  | UnknownTarget

datatype level = TraceLevel | DebugLevel | WarningLevel | ErrorLevel | FatalLevel


text \<open>
  What a call of \<^verbatim>\<open>ProcessStatics\<close> acts on: the event behind the pointer and the lines
  written to the node's logger. The call ends by returning (\<open>Returned\<close>, with the error
  or nil), by the exit of the process that \<^verbatim>\<open>clog.Fatal\<close> makes (\<open>Exited\<close>), or by the
  panic of a write to a nil map (\<open>Panicked\<close>).
\<close>

record StaticsState =
  sevent :: Event
  slog :: "statics_log list"




datatype resolved = Resolved string StaticsState | Skipped StaticsState | Failed error StaticsState






subsection \<open>CheckExprWL\<close>

text \<open>
  The two counters of package metrics that \<^verbatim>\<open>CheckExprWL\<close> increments, each a function
  of the label values (source, type, name, reason, stage, acquis_type, in this order),
  and the lines written to the node's logger: one constructor for each logging call of
  \<^verbatim>\<open>CheckExprWL\<close>, with the arguments of the call, and the level of each call.
\<close>

datatype wl_log =
    FailedToRunWhitelistExpr error
  | EventLeavingNodeKo
  | WhitelistedByExpr string
  | UnexpectedWhitelistType goval string

fun wl_level :: "wl_log \<Rightarrow> level" where
  "wl_level (FailedToRunWhitelistExpr err) = WarningLevel"
| "wl_level EventLeavingNodeKo = DebugLevel"
| "wl_level (WhitelistedByExpr reason) = DebugLevel"
| "wl_level (UnexpectedWhitelistType v e) = ErrorLevel"

record WlState =
  NodesWlHits :: "string list \<Rightarrow> nat"
  NodesWlHitsOk :: "string list \<Rightarrow> nat"
  wlog :: "wl_log list"

definition wl_labels :: "'p Node \<Rightarrow> Event \<Rightarrow> string list" where
  "wl_labels n p =
     [Src (EventLine p), Module (EventLine p), Name n, Reason (NodeWhitelist n), Stage p,
      (case Labels (EventLine p) of
         None \<Rightarrow> []
       | Some m \<Rightarrow> (case m ''type'' of None \<Rightarrow> [] | Some t \<Rightarrow> t))]"

definition wlogf :: "wl_log \<Rightarrow> WlState \<Rightarrow> WlState" where
  "wlogf m st = st\<lparr>wlog := wlog st @ [m]\<rparr>"

definition ContainsExprLists :: "'p Node \<Rightarrow> bool" where
  "ContainsExprLists n = (length (B_Exprs (NodeWhitelist n)) > 0)"

datatype wl_flow =
    WlLoopEnd bool WlState
  | WlLoopError bool error WlState
  | WlLoopPanic WlState

datatype wl_exit = WlReturned bool "error option" | WlPanicked

text \<open>
  The loop \<^verbatim>\<open>for eidx, e := range n.Whitelist.B_Exprs\<close> over the expressions that
  remain, \<open>eidx\<close> the index of the first. The line for a value that is not a boolean
  takes \<^verbatim>\<open>n.Whitelist.Exprs[eidx]\<close> as an argument, and the index expression panics
  when \<^verbatim>\<open>Exprs\<close> is shorter.
\<close>

fun CheckExprWL_loop ::
  "('p, 'w) ParserExternals \<Rightarrow> 'p Node \<Rightarrow> (string \<rightharpoonup> Event) \<Rightarrow> nat \<Rightarrow> 'p list \<Rightarrow> bool
     \<Rightarrow> WlState \<Rightarrow> wl_flow" where
  "CheckExprWL_loop x n env eidx [] isWhitelisted st = WlLoopEnd isWhitelisted st"
| "CheckExprWL_loop x n env eidx (e # rest) isWhitelisted st =
     (if isWhitelisted then WlLoopEnd isWhitelisted st
      else case Run x e env of
        Inl err \<Rightarrow>
          WlLoopError isWhitelisted err
            (wlogf EventLeavingNodeKo (wlogf (FailedToRunWhitelistExpr err) st))
      | Inr output \<Rightarrow>
          (case output of
             GBool out \<Rightarrow>
               if out then
                 CheckExprWL_loop x n env (eidx + 1) rest True
                   (wlogf (WhitelistedByExpr (Reason (NodeWhitelist n))) st)
               else CheckExprWL_loop x n env (eidx + 1) rest isWhitelisted st
           | _ \<Rightarrow>
               if eidx < length (Exprs (NodeWhitelist n)) then
                 CheckExprWL_loop x n env (eidx + 1) rest isWhitelisted
                   (wlogf (UnexpectedWhitelistType output (Exprs (NodeWhitelist n) ! eidx)) st)
               else WlLoopPanic st))"

definition CheckExprWL ::
  "('p, 'w) ParserExternals \<Rightarrow> 'p Node \<Rightarrow> (string \<rightharpoonup> Event) \<Rightarrow> Event \<Rightarrow> WlState
     \<Rightarrow> wl_exit \<times> WlState" where
  "CheckExprWL x n cachedExprEnv p st =
     (let isWhitelisted = False in
      if \<not> ContainsExprLists n then (WlReturned False None, st)
      else
        (let st1 = st\<lparr>NodesWlHits := (NodesWlHits st)(wl_labels n p := NodesWlHits st (wl_labels n p) + 1)\<rparr>
         in case CheckExprWL_loop x n cachedExprEnv 0 (B_Exprs (NodeWhitelist n)) isWhitelisted st1 of
              WlLoopError w err st2 \<Rightarrow> (WlReturned w (Some err), st2)
            | WlLoopPanic st2 \<Rightarrow> (WlPanicked, st2)
            | WlLoopEnd w st2 \<Rightarrow>
                (WlReturned w None,
                 if w then
                   st2\<lparr>NodesWlHitsOk :=
                         (NodesWlHitsOk st2)(wl_labels n p := NodesWlHitsOk st2 (wl_labels n p) + 1)\<rparr>
                 else st2)))"

text \<open>
  The lines the specification asks for when expressions return values that are not
  booleans: one error line for each such value, in the order of the expressions, each
  with the source of its expression. \<open>eidx\<close> is the index of the first expression of the
  list.
\<close>

fun nonbool_lines ::
  "('p, 'w) ParserExternals \<Rightarrow> 'p Node \<Rightarrow> (string \<rightharpoonup> Event) \<Rightarrow> nat \<Rightarrow> 'p list \<Rightarrow> wl_log list" where
  "nonbool_lines x n env eidx [] = []"
| "nonbool_lines x n env eidx (e # es) =
     (case Run x e env of
        Inl err \<Rightarrow> []
      | Inr (GBool b) \<Rightarrow> []
      | Inr v \<Rightarrow> [UnexpectedWhitelistType v (Exprs (NodeWhitelist n) ! eidx)])
     @ nonbool_lines x n env (eidx + 1) es"

subsection \<open>A test double of the parser's collaborators\<close>

text \<open>
  Two stages and four nodes on which the theorems about \<^verbatim>\<open>Parse\<close> are run. A node named
  \<open>broken\<close> fails, a node named \<open>never\<close> does not match, every other node matches and,
  when its \<^verbatim>\<open>OnSuccess\<close> is \<^verbatim>\<open>next_stage\<close>, moves the event to the stage after its own,
  as \<^verbatim>\<open>(*Node).process\<close> does. The state outside the event counts the calls.
\<close>

definition demo_process ::
  "'p Node \<Rightarrow> Event \<Rightarrow> UnixParserCtx \<Rightarrow> (string \<rightharpoonup> Event) \<Rightarrow> nat \<Rightarrow> (error + bool) \<times> Event \<times> nat" where
  "demo_process node e c env u =
     (if Name node = ''broken'' then (Inl ''grok pattern failed'', e, u + 1)
      else if Name node = ''never'' then (Inr False, e, u + 1)
      else if OnSuccess node = ''next_stage''
              \<and> stageidx (Stage e) (Stages c) + 1 < int (length (Stages c))
           then (Inr True, e\<lparr>Stage := Stages c ! nat (stageidx (Stage e) (Stages c) + 1)\<rparr>, u + 1)
      else (Inr True, e, u + 1))"

definition demo_ctx :: UnixParserCtx where
  "demo_ctx = \<lparr>Stages = [''s00-raw'', ''s01-parse''], Profiling = False\<rparr>"

definition demo_ParseDate :: EnrichFunc where
  "demo_ParseDate v e =
     ([(''MarshaledTime'', if v = [] then ''2024-05-01T10:00:00Z'' else v)], None, e)"

definition demo_node :: "string \<Rightarrow> string \<Rightarrow> string \<Rightarrow> string Node" where
  "demo_node name stage onsuccess =
     \<lparr>Name = name, rn = name, NodeStage = stage, OnSuccess = onsuccess, NodeProfiling = False,
      NodeWhitelist = \<lparr>Reason = ''internal scanner'',
                        Exprs = [''count'', ''no'', ''flag'', ''boom''],
                        B_Exprs = [''count'', ''no'', ''flag'', ''boom'']\<rparr>,
      Registered = (\<lambda>m. if m = ''ParseDate'' then Some demo_ParseDate else None)\<rparr>"

definition demo_event :: Event where
  "demo_event =
     \<lparr>Type = 0, Stage = [],
      EventLine = \<lparr>Raw = ''Failed password for root'', Src = ''/var/log/auth.log'',
                   Module = ''file'', Labels = Some [''type'' \<mapsto> ''syslog'']\<rparr>,
      Parsed = None, Enriched = None, Unmarshaled = None, Time = 0, Process = True,
      Meta = None\<rparr>"

text \<open>
  A compiled program is its source here, and running it looks the source up: \<open>geo\<close>
  returns a map, \<open>tags\<close> a sequence, \<open>nothing\<close> nil, \<open>count\<close> an integer, \<open>raw\<close> the
  raw line, \<open>flag\<close> and \<open>no\<close> the two booleans, \<open>labels\<close> a map of strings; any other
  program fails.
\<close>

definition demo_run :: "string \<Rightarrow> (string \<rightharpoonup> Event) \<Rightarrow> error + goval" where
  "demo_run prog env =
     (if prog = ''geo'' then Inr (GMap [(''city'', GString ''paris'')])
      else if prog = ''tags'' then Inr (GSlice [GString ''ssh'', GString ''bf''])
      else if prog = ''nothing'' then Inr GNil
      else if prog = ''count'' then Inr (GInt (- 42))
      else if prog = ''flag'' then Inr (GBool True)
      else if prog = ''no'' then Inr (GBool False)
      else if prog = ''labels'' then Inr (GOther ''map[string]string'')
      else if prog = ''raw'' then
        (case env ''evt'' of
           Some e \<Rightarrow> Inr (GString (Raw (EventLine e)))
         | None \<Rightarrow> Inl ''cannot fetch Line from <nil>'')
      else Inl ''unknown name'')"

definition demo_parser :: "(string, nat) ParserExternals" where
  "demo_parser =
     \<lparr>Run = demo_run,
      process = demo_process,
      SetTargetByName = (\<lambda>target v e. (False, e)),
      Sprintf_f64 = (\<lambda>f. ''0.000000''),
      Sprintf_f32 = (\<lambda>f. ''0.000000'')\<rparr>"





definition demo_wl_state :: WlState where
  "demo_wl_state = \<lparr>NodesWlHits = (\<lambda>l. 0), NodesWlHitsOk = (\<lambda>l. 0), wlog = []\<rparr>"

section \<open>Properties of the polling API client\<close>

lemma length_reverse_loop: "length (reverse_loop k a) = length a"
  by (induction k arbitrary: a) (simp_all add: Let_def)

lemma nth_reverse_loop:
  "k \<le> length a div 2 \<Longrightarrow> j < length a \<Longrightarrow>
   reverse_loop k a ! j =
     (if j < k \<or> length a - 1 - j < k then a ! (length a - 1 - j) else a ! j)"
proof (induction k arbitrary: a j)
  case 0
  then show ?case by simp
next
  case (Suc k)
  let ?opp = "length a - 1 - k"
  let ?b = "a[k := a ! ?opp, ?opp := a ! k]"
  have len: "length ?b = length a" by simp
  have k_lt: "k < ?opp" and opp_lt: "?opp < length a"
    using Suc.prems(1) by auto
  have step: "reverse_loop (Suc k) a ! j =
      (if j < k \<or> length a - 1 - j < k then ?b ! (length a - 1 - j) else ?b ! j)"
    using Suc.IH [of ?b j] Suc.prems by (simp add: Let_def)
  show ?case
  proof (cases "j = k \<or> j = ?opp")
    case True
    then show ?thesis
      using step k_lt opp_lt Suc.prems by (auto simp: nth_list_update)
  next
    case False
    then show ?thesis
      using step k_lt opp_lt Suc.prems by (auto simp: nth_list_update)
  qed
qed

lemma reverse_rev: "reverse s = rev s"
proof (rule nth_equalityI)
  show "length (reverse s) = length (rev s)"
    by (simp add: reverse_def length_reverse_loop)
next
  fix j assume "j < length (reverse s)"
  then have j: "j < length s"
    by (simp add: reverse_def length_reverse_loop)
  then have "reverse s ! j = s ! (length s - 1 - j)"
    unfolding reverse_def Let_def
    by (subst nth_reverse_loop) (auto intro: arg_cong [where f = "(!) s"])
  then show "reverse s ! j = rev s ! j"
    using j by (simp add: rev_nth)
qed

declare chunks.simps [simp del]

declare SendDeletedDecisions_loop.simps [simp del]


lemma PullOnce_loop_foldl:
  "PullOnce_loop x sync n i es p = foldl (dispatch_one x sync n) p (enumerate i es)"
  by (induction es arbitrary: i p)
     (auto simp: dispatch_one_def split: prod.splits option.splits)

text \<open>
  Claim C3. When the transport delivers a batch (newest first), \<^verbatim>\<open>PullOnce\<close> returns nil
  and has handed the events to \<open>handleEvent\<close> one after the other in the reversed order
  of the batch, oldest first: its result is that of \<open>dispatch_in_order\<close> on \<open>rev events\<close>,
  which logs the failure of an event under its request id and goes on with the events
  that remain. This holds whatever the decoder and the operation functions do.
\<close>
theorem PullOnce_dispatches_oldest_first:
  "ClientPullOnce x ctx since (world p) = (Inr events, w1) \<Longrightarrow>
   PullOnce x ctx since sync p =
     (None, logf FinishedHandlingEvents
              (dispatch_in_order x sync (length events) (rev events)
                 (logf (ReceivedEvents (length events)) (p\<lparr>world := w1\<rparr>))))"
  by (simp add: PullOnce_def Let_def reverse_rev PullOnce_loop_foldl dispatch_in_order_def)

lemma handleEvent_keeps:
  assumes "\<And>m q s. DBClient (snd (DecisionCmd x m q s)) PapiPullKey = DBClient q PapiPullKey"
    and "\<And>m q s. DBClient (snd (AlertCmd x m q s)) PapiPullKey = DBClient q PapiPullKey"
    and "\<And>m q s. DBClient (snd (ManagementCmd x m q s)) PapiPullKey = DBClient q PapiPullKey"
  shows "DBClient (snd (handleEvent x event sync p)) PapiPullKey = DBClient p PapiPullKey"
proof -
  have op: "DBClient (snd (f m q s)) PapiPullKey = DBClient q PapiPullKey"
    if "operationMap x t = Some f" for t f m q s
    using that assms by (auto simp: operationMap_def split: if_splits)
  have op': "DBClient q' PapiPullKey = DBClient q PapiPullKey"
    if "operationMap x t = Some f" "f m q s = (r, q')" for t f m q s r q'
    using op [OF that(1), of m q s] that(2) by simp
  show ?thesis
    unfolding handleEvent_def Let_def
    by (simp split: sum.split option.split prod.split add: logf_def) (auto dest: op')
qed


lemma logf_DBClient: "DBClient (logf m p) = DBClient p"
  by (simp add: logf_def)

lemma PullOnce_loop_keeps:
  assumes "\<And>event sync p. DBClient (snd (handleEvent x event sync p)) PapiPullKey = DBClient p PapiPullKey"
  shows "DBClient (PullOnce_loop x sync n i es p) PapiPullKey = DBClient p PapiPullKey"
proof (induction es arbitrary: i p)
  case Nil
  then show ?case by simp
next
  case (Cons event es)
  obtain r p1 where h: "handleEvent x event sync p = (r, p1)"
    by (cases "handleEvent x event sync p")
  have "DBClient p1 PapiPullKey = DBClient p PapiPullKey"
    using assms [of event sync p] h by simp
  then show ?case
    using h Cons.IH by (cases r) (simp_all add: logf_DBClient)
qed

text \<open>
  Claim C4. \<^verbatim>\<open>PullOnce\<close> leaves the value stored under \<open>PapiPullKey\<close> as it was, for
  any batch and also when the pull fails, provided the three operation functions (whose
  code is in another file and which receive the \<^verbatim>\<open>*Papi\<close>) do not write that key:
  \<^verbatim>\<open>PullOnce\<close> and \<open>handleEvent\<close> themselves never write a configuration item.
\<close>
theorem PullOnce_keeps_checkpoint:
  assumes "\<forall>m q s. DBClient (snd (DecisionCmd x m q s)) PapiPullKey = DBClient q PapiPullKey"
    and "\<forall>m q s. DBClient (snd (AlertCmd x m q s)) PapiPullKey = DBClient q PapiPullKey"
    and "\<forall>m q s. DBClient (snd (ManagementCmd x m q s)) PapiPullKey = DBClient q PapiPullKey"
  shows "DBClient (snd (PullOnce x ctx since sync p)) PapiPullKey = DBClient p PapiPullKey"
proof -
  have h: "DBClient (snd (handleEvent x event s q)) PapiPullKey = DBClient q PapiPullKey"
    for event s q
    using assms by (intro handleEvent_keeps) simp_all
  obtain r w1 where c: "ClientPullOnce x ctx since (world p) = (r, w1)"
    by (cases "ClientPullOnce x ctx since (world p)")
  show ?thesis
  proof (cases r)
    case (Inl err)
    then show ?thesis using c by (simp add: PullOnce_def)
  next
    case (Inr events)
    then show ?thesis
      using c PullOnce_loop_keeps [of x, OF h]
      by (simp add: PullOnce_def Let_def logf_DBClient)
  qed
qed

text \<open>
  Claim C5, as amended. For an event received in the loop of \<^verbatim>\<open>Pull\<close>: the local
  \<^verbatim>\<open>lastTimestamp\<close> is the current time after the step, whatever \<open>handleEvent\<close>
  returned. When \<open>handleEvent\<close> fails, the failure is logged and nothing is written to
  the database. When it succeeds, the marshalled current time is written under
  \<open>PapiPullKey\<close>; when that write fails, the failure is logged and the database is as
  \<open>handleEvent\<close> left it. In every case the step returns the state with which the loop
  goes on.
\<close>
theorem Pull_event_checkpoint:
  assumes "handleEvent x event False p = (herr, p1)"
  shows "fst (Pull_event x fault now event (ts, p)) = now
    \<and> (case herr of
         Some err \<Rightarrow>
           snd (Pull_event x fault now event (ts, p))
             = logf (FailedToHandleEvent (RequestId event) err) p1
       | None \<Rightarrow>
           (case fault of
              None \<Rightarrow>
                snd (Pull_event x fault now event (ts, p))
                  = logf (SetLastTimestamp (RequestId event) now)
                      (p1\<lparr>DBClient := (DBClient p1)(PapiPullKey \<mapsto> MarshalText x now)\<rparr>)
            | Some err \<Rightarrow>
                snd (Pull_event x fault now event (ts, p))
                  = logf (SetLastTimestamp (RequestId event) now)
                      (logf (FailedToUpdateLastTimestamp (RequestId event) err) p1)))"
  using assms
  by (simp add: Pull_event_def Let_def SetConfigItem_def split: option.split)


lemma chunks_Nil: "chunks n [] = []"
  by (simp add: chunks.simps)

lemma chunks_step: "0 < n \<Longrightarrow> xs \<noteq> [] \<Longrightarrow> chunks n xs = take n xs # chunks n (drop n xs)"
  by (subst chunks.simps) simp

lemma SendDeletedDecisions_loop_chunks:
  "SendDeletedDecisions_loop x ctx cache start p
     = send_chunks x ctx (chunks batchSize (drop start cache)) p"
proof (induction x ctx cache start p rule: SendDeletedDecisions_loop.induct)
  case (1 x ctx cache start p)
  show ?case
  proof (cases "start < length cache")
    case False
    then show ?thesis
      by (subst SendDeletedDecisions_loop.simps) (simp add: chunks_Nil)
  next
    case True
    have sl: "slice cache start (min (start + batchSize) (length cache))
                = take batchSize (drop start cache)"
      using True by (auto simp: slice_def min_def)
    have ch: "chunks batchSize (drop start cache)
                = take batchSize (drop start cache) # chunks batchSize (drop (start + batchSize) cache)"
      using True by (subst chunks_step) (simp_all add: batchSize_def add.commute)
    show ?thesis
      apply (subst SendDeletedDecisions_loop.simps)
      using True 1 [OF True refl]
      by (simp add: Let_def sl ch sendDeletedDecisionsBatch_def split: prod.split option.split)
  qed
qed

lemma chunks_closed:
  "0 < n \<Longrightarrow> chunks n xs = map (\<lambda>k. take n (drop (n * k) xs)) [0 ..< (length xs + n - 1) div n]"
proof (induction n xs rule: chunks.induct)
  case (1 n xs)
  show ?case
  proof (cases "xs = []")
    case True
    then show ?thesis using 1(2) by (simp add: chunks_Nil)
  next
    case False
    let ?m = "(length (drop n xs) + n - 1) div n"
    have m: "(length xs + n - 1) div n = Suc ?m"
    proof (cases "n \<le> length xs")
      case True
      then have "length xs + n - 1 = (length xs - n + n - 1) + 1 * n"
        using 1(2) by simp
      then show ?thesis using 1(2) by (simp del: add_diff_assoc add_diff_assoc2)
         (metis div_add_self2 gr_implies_not0 mult.commute mult.right_neutral add.commute Suc_eq_plus1 div_mult_self1)
    next
      case F: False
      then have "length (drop n xs) = 0" by simp
      moreover have pos: "0 < length xs" using False by simp
      have "n \<le> length xs + n - 1" "length xs + n - 1 < n + n"
        using pos F by linarith+
      then have "(length xs + n - 1) div n = 1"
        by (intro div_nat_eqI) simp_all
      ultimately show ?thesis using 1(2) by simp
    qed
    have ih: "chunks n (drop n xs) = map (\<lambda>k. take n (drop (n * k) (drop n xs))) [0 ..< ?m]"
      using 1 False by simp
    have up: "[0 ..< Suc ?m] = 0 # map Suc [0 ..< ?m]"
      by (simp add: upt_conv_Cons map_Suc_upt del: upt_Suc)
    have "chunks n xs = take n xs # chunks n (drop n xs)"
      using False 1(2) by (simp add: chunks_step)
    also have "\<dots> = take n xs # map (\<lambda>k. take n (drop (n * k) (drop n xs))) [0 ..< ?m]"
      by (simp only: ih)
    also have "\<dots> = map (\<lambda>k. take n (drop (n * k) xs)) (0 # map Suc [0 ..< ?m])"
      by (simp add: o_def add.commute del: upt_Suc)
    also have "\<dots> = map (\<lambda>k. take n (drop (n * k) xs)) [0 ..< (length xs + n - 1) div n]"
      by (simp only: up m)
    finally show ?thesis .
  qed
qed


text \<open>
  Claim C6. \<^verbatim>\<open>SendDeletedDecisions\<close> sends the consecutive chunks of at most 50
  identifiers in order, each by a call of its own under \<open>WithTimeout ctx 5\<close>, and stops
  after the first call that fails, logging the failure (\<open>send_chunks\<close> on
  \<open>chunks batchSize cache\<close>). The chunk of index \<open>k\<close> holds the identifiers from
  \<open>50 * k\<close> on, at most 50 of them; 125 identifiers make chunks of 50, 50 and 25; and when
  the call for the first chunk fails, the state after that single call, with the failure
  logged, is the result.
\<close>
theorem SendDeletedDecisions_chunks:
  "SendDeletedDecisions x ctx cache p = send_chunks x ctx (chunks batchSize cache) p
   \<and> chunks batchSize cache
       = map (\<lambda>k. take 50 (drop (50 * k) cache)) [0 ..< (length cache + 49) div 50]
   \<and> (length cache = 125 \<longrightarrow> map length (chunks batchSize cache) = [50, 50, 25])
   \<and> (cache \<noteq> [] \<longrightarrow>
        DecisionDeleteAdd x (WithTimeout ctx 5) (take 50 cache) (world p) = (Some err, w1) \<longrightarrow>
        SendDeletedDecisions x ctx cache p
          = logf (SendingDeletedDecisionsFailed err) (p\<lparr>world := w1\<rparr>))"
proof -
  have a: "SendDeletedDecisions x ctx cache p = send_chunks x ctx (chunks batchSize cache) p"
    by (simp add: SendDeletedDecisions_def SendDeletedDecisions_loop_chunks)
  have b: "chunks batchSize cache
       = map (\<lambda>k. take 50 (drop (50 * k) cache)) [0 ..< (length cache + 49) div 50]"
  proof -
    have "length cache + 50 - 1 = length cache + 49" by simp
    then show ?thesis
      using chunks_closed [of 50 cache] by (simp only: batchSize_def)
  qed
  have c: "map length (chunks batchSize cache) = [50, 50, 25]" if "length cache = 125"
  proof -
    have "[0 ..< (length cache + 49) div 50] = [0, 1, 2]"
      using that by (simp add: upt_conv_Cons)
    then show ?thesis using that by (simp add: b)
  qed
  have d: "SendDeletedDecisions x ctx cache p
          = logf (SendingDeletedDecisionsFailed err) (p\<lparr>world := w1\<rparr>)"
    if "cache \<noteq> []"
      and "DecisionDeleteAdd x (WithTimeout ctx 5) (take 50 cache) (world p) = (Some err, w1)"
  proof -
    have "chunks batchSize cache = take 50 cache # chunks batchSize (drop 50 cache)"
      using that(1) by (simp add: batchSize_def chunks_step)
    then show ?thesis using that(2) by (simp add: a)
  qed
  show ?thesis using a b c d by blast
qed

text \<open>
  The theorem of claim C6 on 125 identifiers: three requests reach the central API, of
  sizes 50, 50 and 25; with a first identifier the API refuses, only one request does.
\<close>
theorem SendDeletedDecisions_chunks_witness:
  "length demo_cache = 125
   \<and> map length (chunks batchSize demo_cache) = [50, 50, 25]
   \<and> requests (world (SendDeletedDecisions demo_externals Background demo_cache demo_papi))
       = [(WithTimeout Background 5, replicate 50 ''7f3a''),
          (WithTimeout Background 5, replicate 50 ''7f3a''),
          (WithTimeout Background 5, replicate 25 ''7f3a'')]
   \<and> ''unknown'' # demo_cache \<noteq> []
   \<and> DecisionDeleteAdd demo_externals (WithTimeout Background 5)
         (take 50 (''unknown'' # demo_cache)) (world demo_papi)
       = (Some ''not found'',
          \<lparr>handled = [], requests = [(WithTimeout Background 5, ''unknown'' # replicate 49 ''7f3a'')]\<rparr>)
   \<and> requests (world (SendDeletedDecisions demo_externals Background (''unknown'' # demo_cache) demo_papi))
       = [(WithTimeout Background 5, ''unknown'' # replicate 49 ''7f3a'')]"
proof -
  have up: "[0 ..< (3::nat)] = [0, 1, 2]"
    by (simp add: upt_conv_Cons)
  have ok: "requests (world (SendDeletedDecisions demo_externals Background demo_cache demo_papi))
       = [(WithTimeout Background 5, replicate 50 ''7f3a''),
          (WithTimeout Background 5, replicate 50 ''7f3a''),
          (WithTimeout Background 5, replicate 25 ''7f3a'')]"
    using SendDeletedDecisions_chunks [of demo_externals Background demo_cache demo_papi]
    by (simp add: demo_cache_def demo_externals_def demo_papi_def up)
  have first: "DecisionDeleteAdd demo_externals (WithTimeout Background 5)
         (take 50 (''unknown'' # demo_cache)) (world demo_papi)
       = (Some ''not found'',
          \<lparr>handled = [], requests = [(WithTimeout Background 5, ''unknown'' # replicate 49 ''7f3a'')]\<rparr>)"
    by (simp add: demo_cache_def demo_externals_def demo_papi_def take_Cons')
  have len: "length demo_cache = 125"
    by (simp add: demo_cache_def)
  have sizes: "map length (chunks batchSize demo_cache) = [50, 50, 25]"
    using SendDeletedDecisions_chunks [of demo_externals Background demo_cache demo_papi] len
    by blast
  have stopped: "SendDeletedDecisions demo_externals Background (''unknown'' # demo_cache) demo_papi
       = logf (SendingDeletedDecisionsFailed ''not found'')
           (demo_papi\<lparr>world := \<lparr>handled = [],
              requests = [(WithTimeout Background 5, ''unknown'' # replicate 49 ''7f3a'')]\<rparr>\<rparr>)"
    using SendDeletedDecisions_chunks [of demo_externals Background "''unknown'' # demo_cache" demo_papi
        "''not found''"
        "\<lparr>handled = [], requests = [(WithTimeout Background 5, ''unknown'' # replicate 49 ''7f3a'')]\<rparr>"]
      first
    by blast
  show ?thesis
    using len sizes ok first by (simp add: stopped logf_def)
qed

lemma demo_pull:
  "ClientPullOnce demo_externals Background 0 (world demo_papi)
     = (Inr [\<lparr>Data = ''third'', RequestId = ''r3''\<rparr>,
             \<lparr>Data = ''garbled'', RequestId = ''r2''\<rparr>,
             \<lparr>Data = ''first'', RequestId = ''r1''\<rparr>], world demo_papi)"
  by (simp add: demo_externals_def)

text \<open>
  The theorem of claim C3 on a batch of three events of which the second cannot be
  decoded: the operation function sees the first and the third, oldest first, and the
  failure of the second is logged between them.
\<close>
theorem PullOnce_dispatches_oldest_first_witness:
  "ClientPullOnce demo_externals Background 0 (world demo_papi)
     = (Inr [\<lparr>Data = ''third'', RequestId = ''r3''\<rparr>,
             \<lparr>Data = ''garbled'', RequestId = ''r2''\<rparr>,
             \<lparr>Data = ''first'', RequestId = ''r1''\<rparr>], world demo_papi)
   \<and> fst (PullOnce demo_externals Background 0 True demo_papi) = None
   \<and> handled (world (snd (PullOnce demo_externals Background 0 True demo_papi)))
       = [''first'', ''third'']
   \<and> Logger (snd (PullOnce demo_externals Background 0 True demo_papi))
       = [ReceivedEvents 3,
          MessageReceived ''r1'' ''first'', CallingOperation ''r1'' ''decision'', HandledEvent 0 3,
          MessageReceived ''r2'' ''garbled'',
          FailedToHandleEvent ''r2''
            ''polling papi message format is not compatible: garbled: unexpected end of input'',
          HandledEvent 1 3,
          MessageReceived ''r3'' ''third'', CallingOperation ''r3'' ''decision'', HandledEvent 2 3,
          FinishedHandlingEvents]"
  using PullOnce_dispatches_oldest_first [OF demo_pull, of True]
  by (simp add: demo_pull dispatch_in_order_def dispatch_one_def handleEvent_def operationMap_def
        logf_def Let_def demo_externals_def demo_cmd_def demo_papi_def)

text \<open>
  The theorem of claim C4 on the same batch: the operation functions write an item of
  their own, and the pull key keeps its value.
\<close>
theorem PullOnce_keeps_checkpoint_witness:
  "(\<forall>m q s. DBClient (snd (DecisionCmd demo_externals m q s)) PapiPullKey = DBClient q PapiPullKey)
   \<and> (\<forall>m q s. DBClient (snd (AlertCmd demo_externals m q s)) PapiPullKey = DBClient q PapiPullKey)
   \<and> (\<forall>m q s. DBClient (snd (ManagementCmd demo_externals m q s)) PapiPullKey = DBClient q PapiPullKey)
   \<and> DBClient (snd (PullOnce demo_externals Background 0 True demo_papi)) PapiPullKey
       = Some ''0001-01-01T00:00:00Z''
   \<and> DBClient (snd (PullOnce demo_externals Background 0 True demo_papi)) ''seen'' = Some ''third''"
proof -
  have k: "\<forall>m q s. DBClient (snd (demo_cmd m q s)) PapiPullKey = DBClient q PapiPullKey"
    by (simp add: demo_cmd_def Let_def PapiPullKey_def)
  have d: "DecisionCmd demo_externals = demo_cmd" "AlertCmd demo_externals = demo_cmd"
    "ManagementCmd demo_externals = demo_cmd"
    by (simp_all add: demo_externals_def)
  have "DBClient (snd (PullOnce demo_externals Background 0 True demo_papi)) PapiPullKey
       = DBClient demo_papi PapiPullKey"
    using PullOnce_keeps_checkpoint [of demo_externals Background 0 True demo_papi] k
    by (simp add: d)
  moreover have "DBClient (snd (PullOnce demo_externals Background 0 True demo_papi)) ''seen''
       = Some ''third''"
    by (simp add: PullOnce_def reverse_def demo_pull handleEvent_def operationMap_def
        logf_def Let_def demo_externals_def demo_cmd_def demo_papi_def)
  ultimately show ?thesis
    using k by (simp add: d demo_papi_def)
qed

text \<open>
  The theorem of claim C5 on an event that is handled: the checkpoint is persisted when
  the store accepts the write, and is left alone, with the failure logged, when the store
  refuses it.
\<close>
theorem Pull_event_checkpoint_witness:
  "handleEvent demo_externals \<lparr>Data = ''first'', RequestId = ''r1''\<rparr> False demo_papi
     = (None, demo_papi\<lparr>Logger := [MessageReceived ''r1'' ''first'', CallingOperation ''r1'' ''decision''],
                         DBClient := (DBClient demo_papi)(''seen'' \<mapsto> ''first''),
                         world := \<lparr>handled = [''first''], requests = []\<rparr>\<rparr>)
   \<and> fst (Pull_event demo_externals None 7 \<lparr>Data = ''first'', RequestId = ''r1''\<rparr> (0, demo_papi)) = 7
   \<and> DBClient (snd (Pull_event demo_externals None 7 \<lparr>Data = ''first'', RequestId = ''r1''\<rparr> (0, demo_papi)))
        PapiPullKey = Some ''2024-05-01T10:00:00Z''
   \<and> DBClient (snd (Pull_event demo_externals (Some ''database is locked'') 7
                      \<lparr>Data = ''first'', RequestId = ''r1''\<rparr> (0, demo_papi)))
        PapiPullKey = Some ''0001-01-01T00:00:00Z''
   \<and> Logger (snd (Pull_event demo_externals (Some ''database is locked'') 7
                      \<lparr>Data = ''first'', RequestId = ''r1''\<rparr> (0, demo_papi)))
       = [MessageReceived ''r1'' ''first'', CallingOperation ''r1'' ''decision'',
          FailedToUpdateLastTimestamp ''r1'' ''database is locked'', SetLastTimestamp ''r1'' 7]"
proof -
  have h: "handleEvent demo_externals \<lparr>Data = ''first'', RequestId = ''r1''\<rparr> False demo_papi
     = (None, demo_papi\<lparr>Logger := [MessageReceived ''r1'' ''first'', CallingOperation ''r1'' ''decision''],
                         DBClient := (DBClient demo_papi)(''seen'' \<mapsto> ''first''),
                         world := \<lparr>handled = [''first''], requests = []\<rparr>\<rparr>)"
    by (simp add: handleEvent_def operationMap_def logf_def Let_def demo_externals_def
          demo_cmd_def demo_papi_def)
  have m: "MarshalText demo_externals 7 = ''2024-05-01T10:00:00Z''"
    by (simp add: demo_externals_def)
  let ?ev = "\<lparr>Data = ''first'', RequestId = ''r1''\<rparr>"
  have a: "fst (Pull_event demo_externals None 7 ?ev (0, demo_papi)) = 7"
    using Pull_event_checkpoint [OF h, of None 7 0] by simp
  have b: "DBClient (snd (Pull_event demo_externals None 7 ?ev (0, demo_papi))) PapiPullKey
             = Some ''2024-05-01T10:00:00Z''"
    using Pull_event_checkpoint [OF h, of None 7 0] by (simp add: m logf_def)
  have c: "snd (Pull_event demo_externals (Some ''database is locked'') 7 ?ev (0, demo_papi))
             = logf (SetLastTimestamp ''r1'' 7)
                 (logf (FailedToUpdateLastTimestamp ''r1'' ''database is locked'')
                    (demo_papi\<lparr>Logger := [MessageReceived ''r1'' ''first'', CallingOperation ''r1'' ''decision''],
                         DBClient := (DBClient demo_papi)(''seen'' \<mapsto> ''first''),
                         world := \<lparr>handled = [''first''], requests = []\<rparr>\<rparr>))"
    using Pull_event_checkpoint [OF h, of "Some ''database is locked''" 7 0] by simp
  have d: "DBClient (snd (Pull_event demo_externals (Some ''database is locked'') 7 ?ev (0, demo_papi)))
             PapiPullKey = Some ''0001-01-01T00:00:00Z''"
    unfolding c by (simp add: logf_def demo_papi_def PapiPullKey_def)
  have e: "Logger (snd (Pull_event demo_externals (Some ''database is locked'') 7 ?ev (0, demo_papi)))
       = [MessageReceived ''r1'' ''first'', CallingOperation ''r1'' ''decision'',
          FailedToUpdateLastTimestamp ''r1'' ''database is locked'', SetLastTimestamp ''r1'' 7]"
    by (simp add: c logf_def)
  show ?thesis
    using h a b d e by blast
qed

text \<open>
  Claim C5 as stated fails on an event whose payload cannot be decoded: \<open>handleEvent\<close>
  returns an error, and after the step the database still holds the old checkpoint, not
  the marshalled current time.
\<close>
theorem Pull_event_failed_dispatch_counterexample:
  "fst (handleEvent demo_externals \<lparr>Data = ''garbled'', RequestId = ''r2''\<rparr> False demo_papi)
     = Some ''polling papi message format is not compatible: garbled: unexpected end of input''
   \<and> MarshalText demo_externals 7 = ''2024-05-01T10:00:00Z''
   \<and> DBClient (snd (Pull_event demo_externals None 7 \<lparr>Data = ''garbled'', RequestId = ''r2''\<rparr>
                      (0, demo_papi))) PapiPullKey
       = Some ''0001-01-01T00:00:00Z''"
  by (simp add: Pull_event_def handleEvent_def logf_def Let_def demo_externals_def demo_papi_def)

section \<open>Properties of Parse\<close>

lemma stageidx_from_notin: "stage \<notin> set vs \<Longrightarrow> stageidx_from i stage vs = - 1"
  by (induction vs arbitrary: i) auto

lemma stageidx_from_in: "stage \<in> set vs \<Longrightarrow> i \<le> stageidx_from i stage vs"
proof (induction vs arbitrary: i)
  case Nil
  then show ?case by simp
next
  case (Cons a vs)
  show ?case
  proof (cases "stage = a")
    case True
    then show ?thesis by simp
  next
    case False
    then have "stage \<in> set vs" using Cons.prems by simp
    then have "i + 1 \<le> stageidx_from (i + 1) stage vs" by (rule Cons.IH)
    then show ?thesis using False by simp
  qed
qed

lemma stageidx_notin: "stage \<notin> set stages \<Longrightarrow> stageidx stage stages = - 1"
  by (simp add: stageidx_def stageidx_from_notin)

lemma stageidx_hd: "stageidx stage (stage # rest) = 0"
  by (simp add: stageidx_def)

lemma Parse_enter_Stage:
  "Stage (pevent (Parse_enter ctx now xp w))
     = (if Stage xp = [] \<and> Stages ctx \<noteq> [] then Stages ctx ! 0 else Stage xp)"
  by (simp add: Parse_enter_def Let_def)

lemma Parse_enter_world: "pworld (Parse_enter ctx now xp w) = w"
  by (simp add: Parse_enter_def Let_def)

lemma Parse_enter_plog:
  "plog (Parse_enter ctx now xp w)
     = (if Stage xp = [] \<and> Stages ctx \<noteq> [] then [NoStageSetTo (Stages ctx ! 0)] else [])
       @ (if Type xp = LOG then [InputLine (Raw (EventLine xp))] else [])"
  by (simp add: Parse_enter_def Let_def)

lemma plogf_simps:
  "pevent (plogf m st) = pevent st" "pworld (plogf m st) = pworld st"
  "plog (plogf m st) = plog st @ [m]"
  by (simp_all add: plogf_def)

lemma stages_loop_behind:
  assumes "\<not> stageidx stage (Stages ctx) < stageidx (Stage (pevent st)) (Stages ctx)"
    and "Stage (pevent st) \<noteq> stage"
  shows "stages_loop x ctx nodes (stage # rest) st
     = StagesReturn None
         ((plogf (EventNotParsed stage (Stage (pevent st)))
             (plogf (NodeStageCurrentStage (Stage (pevent st)) stage) st))
            \<lparr>pevent := (pevent st)\<lparr>Process := False\<rparr>\<rparr>)"
  using assms by (simp add: Let_def plogf_simps)


lemma Parse_behind:
  assumes "Stages ctx = stage # rest"
    and "\<not> stageidx stage (Stages ctx) < stageidx (Stage (pevent (Parse_enter ctx now xp w))) (Stages ctx)"
    and "Stage (pevent (Parse_enter ctx now xp w)) \<noteq> stage"
  shows "Parse x now ctx xp nodes w
     = ((plogf (EventNotParsed stage (Stage (pevent (Parse_enter ctx now xp w))))
             (plogf (NodeStageCurrentStage (Stage (pevent (Parse_enter ctx now xp w))) stage)
                (Parse_enter ctx now xp w)))
            \<lparr>pevent := (pevent (Parse_enter ctx now xp w))\<lparr>Process := False\<rparr>\<rparr>, None)"
  unfolding Parse_def assms(1)
  using assms(2,3) by (subst stages_loop_behind) (simp_all add: assms(1))

text \<open>
  Claim C10. For an event whose stage is not empty and is none of the configured stages,
  the list of stages not being empty: the index of its stage is \<open>-1\<close>, and \<^verbatim>\<open>Parse\<close>
  returns at the first stage with a nil error and \<^verbatim>\<open>Process\<close> false, the stage of the
  event unchanged. No node is invoked: the result does not depend on the collaborators,
  the state outside the event is untouched, and the lines logged are those of the
  entry and of the return.
\<close>
theorem Parse_unknown_stage:
  assumes "Stage xp \<noteq> []" and "Stage xp \<notin> set (Stages ctx)" and "Stages ctx \<noteq> []"
  shows "stageidx (Stage xp) (Stages ctx) = - 1
    \<and> Parse x now ctx xp nodes w
        = ((plogf (EventNotParsed (hd (Stages ctx)) (Stage xp))
              (plogf (NodeStageCurrentStage (Stage xp) (hd (Stages ctx)))
                 (Parse_enter ctx now xp w)))
             \<lparr>pevent := (pevent (Parse_enter ctx now xp w))\<lparr>Process := False\<rparr>\<rparr>, None)
    \<and> Process (pevent (fst (Parse x now ctx xp nodes w))) = False
    \<and> Stage (pevent (fst (Parse x now ctx xp nodes w))) = Stage xp
    \<and> pworld (fst (Parse x now ctx xp nodes w)) = w
    \<and> plog (fst (Parse x now ctx xp nodes w))
        = (if Type xp = LOG then [InputLine (Raw (EventLine xp))] else [])
          @ [NodeStageCurrentStage (Stage xp) (hd (Stages ctx)),
             EventNotParsed (hd (Stages ctx)) (Stage xp)]"
proof -
  obtain s rest where S: "Stages ctx = s # rest"
    using assms(3) by (cases "Stages ctx") auto
  have idx: "stageidx (Stage xp) (Stages ctx) = - 1"
    using assms(2) by (rule stageidx_notin)
  have ne: "Stage xp \<noteq> s"
    using assms(2) S by auto
  have st: "Stage (pevent (Parse_enter ctx now xp w)) = Stage xp"
    using assms(1) by (simp add: Parse_enter_Stage)
  have zero: "stageidx s (Stages ctx) = 0"
    by (simp add: S stageidx_hd)
  have P: "Parse x now ctx xp nodes w
        = ((plogf (EventNotParsed (hd (Stages ctx)) (Stage xp))
              (plogf (NodeStageCurrentStage (Stage xp) (hd (Stages ctx)))
                 (Parse_enter ctx now xp w)))
             \<lparr>pevent := (pevent (Parse_enter ctx now xp w))\<lparr>Process := False\<rparr>\<rparr>, None)"
    using Parse_behind [OF S, of now xp w x nodes] ne idx zero by (simp add: st S)
  have a: "Process (pevent (fst (Parse x now ctx xp nodes w))) = False"
    and b: "Stage (pevent (fst (Parse x now ctx xp nodes w))) = Stage xp"
    and c: "pworld (fst (Parse x now ctx xp nodes w)) = w"
    unfolding P by (simp_all add: plogf_simps st Parse_enter_world)
  have d: "plog (fst (Parse x now ctx xp nodes w))
        = (if Type xp = LOG then [InputLine (Raw (EventLine xp))] else [])
          @ [NodeStageCurrentStage (Stage xp) (hd (Stages ctx)),
             EventNotParsed (hd (Stages ctx)) (Stage xp)]"
    unfolding P using assms(1) by (simp add: plogf_simps Parse_enter_plog)
  show ?thesis
    using idx P a b c d by blast
qed

lemma stages_loop_append:
  "stages_loop x ctx nodes (pre @ post) st
     = (case stages_loop x ctx nodes pre st of
          StagesDone st1 \<Rightarrow> stages_loop x ctx nodes post st1
        | StagesReturn err st1 \<Rightarrow> StagesReturn err st1)"
proof (induction pre arbitrary: st)
  case Nil
  then show ?case by simp
next
  case (Cons stage pre)
  show ?case
    by (simp add: Cons.IH Let_def split: nodes_result.split)
qed

lemma stages_loop_step:
  assumes "\<not> stageidx stage (Stages ctx) < stageidx (Stage (pevent st)) (Stages ctx)"
    and "Stage (pevent st) = stage"
  shows "stages_loop x ctx nodes (stage # rest) st
     = (case nodes_loop x ctx stage (length nodes) 0 nodes False
               (plogf (NodeStageCurrentStage (Stage (pevent st)) stage) st) of
          NodesError err st2 \<Rightarrow> StagesReturn (Some err) st2
        | NodesDone isStageOK st2 \<Rightarrow>
            if \<not> isStageOK then
              StagesReturn None
                ((plogf (LogDidntFinishStage (Stage (pevent st2))) st2)
                   \<lparr>pevent := (pevent st2)\<lparr>Process := False\<rparr>\<rparr>)
            else stages_loop x ctx nodes rest st2)"
  using assms by (simp add: Let_def plogf_simps)




lemma nodes_loop_skip:
  "Stage (pevent st) \<noteq> NodeStage node \<Longrightarrow>
   nodes_loop x ctx stage n idx (node # ns) ok st = nodes_loop x ctx stage n (idx + 1) ns ok st"
  by simp

lemma nodes_loop_run:
  assumes "Stage (pevent st) = NodeStage node"
    and "process x (if Profiling ctx then node\<lparr>NodeProfiling := True\<rparr> else node)
           (pevent st) ctx [''evt'' \<mapsto> pevent st] (pworld st) = (r, e1, u1)"
  shows "nodes_loop x ctx stage n idx (node # ns) ok st =
    (case r of
       Inl err \<Rightarrow>
         NodesError err
           (st\<lparr>pevent := e1, pworld := u1,
               plog := plog st @ [ProcessingNode (rn node) (NodeStage node) idx n (rn node),
                                  ErrorWhileProcessingNode (rn node) (NodeStage node) err]\<rparr>)
     | Inr ret \<Rightarrow>
         if ret \<and> OnSuccess node = ''next_stage'' then
           NodesDone True
             (st\<lparr>pevent := e1, pworld := u1,
                 plog := plog st @ [ProcessingNode (rn node) (NodeStage node) idx n (rn node),
                                    NodeRet (rn node) (NodeStage node) (rn node) ret,
                                    NodeSuccessful (rn node) (NodeStage node) stage]\<rparr>)
         else if Stage e1 \<noteq> stage then
           NodesDone (ret \<or> ok)
             (st\<lparr>pevent := e1, pworld := u1,
                 plog := plog st @ [ProcessingNode (rn node) (NodeStage node) idx n (rn node),
                                    NodeRet (rn node) (NodeStage node) (rn node) ret,
                                    NodeMovedStage (rn node) (NodeStage node)]\<rparr>)
         else
           nodes_loop x ctx stage n (idx + 1) ns (ret \<or> ok)
             (st\<lparr>pevent := e1, pworld := u1,
                 plog := plog st @ [ProcessingNode (rn node) (NodeStage node) idx n (rn node),
                                    NodeRet (rn node) (NodeStage node) (rn node) ret]\<rparr>))"
proof (cases r)
  case (Inl err)
  then show ?thesis
    using assms by (simp add: Let_def plogf_def)
next
  case (Inr ret)
  then show ?thesis
    using assms by (cases ret) (simp_all add: Let_def plogf_def)
qed





lemma Parse_state:
  "pevent (fst (Parse x now ctx xp nodes w))
     = (case stages_loop x ctx nodes (Stages ctx) (Parse_enter ctx now xp w) of
          StagesReturn err st \<Rightarrow> pevent st
        | StagesDone st \<Rightarrow> (pevent st)\<lparr>Process := True\<rparr>)"
  "plog (fst (Parse x now ctx xp nodes w))
     = plog (stages_state (stages_loop x ctx nodes (Stages ctx) (Parse_enter ctx now xp w)))"
  by (simp_all add: Parse_def split: stages_result.split)



lemma node_call_cases:
  obtains r e1 u1 where "node_call x ctx node (pevent st) (pworld st) = (r, e1, u1)"
  by (metis prod_cases3)

lemma nodes_loop_call:
  assumes "Stage (pevent st) = NodeStage node"
    and "node_call x ctx node (pevent st) (pworld st) = (r, e1, u1)"
  shows "nodes_loop x ctx stage n idx (node # ns) ok st =
    (case r of
       Inl err \<Rightarrow>
         NodesError err
           (st\<lparr>pevent := e1, pworld := u1,
               plog := plog st @ [ProcessingNode (rn node) (NodeStage node) idx n (rn node),
                                  ErrorWhileProcessingNode (rn node) (NodeStage node) err]\<rparr>)
     | Inr ret \<Rightarrow>
         if ret \<and> OnSuccess node = ''next_stage'' then
           NodesDone True
             (st\<lparr>pevent := e1, pworld := u1,
                 plog := plog st @ [ProcessingNode (rn node) (NodeStage node) idx n (rn node),
                                    NodeRet (rn node) (NodeStage node) (rn node) ret,
                                    NodeSuccessful (rn node) (NodeStage node) stage]\<rparr>)
         else if Stage e1 \<noteq> stage then
           NodesDone (ret \<or> ok)
             (st\<lparr>pevent := e1, pworld := u1,
                 plog := plog st @ [ProcessingNode (rn node) (NodeStage node) idx n (rn node),
                                    NodeRet (rn node) (NodeStage node) (rn node) ret,
                                    NodeMovedStage (rn node) (NodeStage node)]\<rparr>)
         else
           nodes_loop x ctx stage n (idx + 1) ns (ret \<or> ok)
             (st\<lparr>pevent := e1, pworld := u1,
                 plog := plog st @ [ProcessingNode (rn node) (NodeStage node) idx n (rn node),
                                    NodeRet (rn node) (NodeStage node) (rn node) ret]\<rparr>))"
  using assms(2) unfolding node_call_def by (rule nodes_loop_run [OF assms(1)])

lemma nodes_loop_no_match:
  assumes "Stage (pevent st) = stage" and "I (pevent st) (pworld st)"
    and "no_node_matches x ctx stage I ns"
  shows "\<exists>st2. nodes_loop x ctx stage n idx ns False st = NodesDone False st2"
  using assms
proof (induction ns arbitrary: idx st)
  case Nil
  then show ?case by simp
next
  case (Cons node ns)
  have rest: "no_node_matches x ctx stage I ns"
    using Cons.prems(3) by (simp add: no_node_matches_def)
  show ?case
  proof (cases "Stage (pevent st) = NodeStage node")
    case False
    show ?thesis
      unfolding nodes_loop_skip [OF False]
      by (rule Cons.IH [OF Cons.prems(1,2) rest])
  next
    case True
    then have ns: "NodeStage node = stage"
      using Cons.prems(1) by simp
    have "\<forall>e u. I e u \<and> Stage e = stage \<longrightarrow>
           (\<exists>e1 u1. node_call x ctx node e u = (Inr False, e1, u1)
              \<and> (Stage e1 = stage \<longrightarrow> I e1 u1))"
      using Cons.prems(3) ns unfolding no_node_matches_def by simp
    then have "\<exists>e1 u1. node_call x ctx node (pevent st) (pworld st) = (Inr False, e1, u1)
              \<and> (Stage e1 = stage \<longrightarrow> I e1 u1)"
      using Cons.prems(1,2) by blast
    then obtain e1 u1 where c: "node_call x ctx node (pevent st) (pworld st) = (Inr False, e1, u1)"
      and inv: "Stage e1 = stage \<longrightarrow> I e1 u1"
      by blast
    let ?st2 = "st\<lparr>pevent := e1, pworld := u1,
                 plog := plog st @ [ProcessingNode (rn node) (NodeStage node) idx n (rn node),
                                    NodeRet (rn node) (NodeStage node) (rn node) False]\<rparr>"
    show ?thesis
    proof (cases "Stage e1 = stage")
      case moved: False
      then show ?thesis
        unfolding nodes_loop_call [OF True c] by simp
    next
      case goes_on: True
      have "Stage (pevent ?st2) = stage" "I (pevent ?st2) (pworld ?st2)"
        using goes_on inv by simp_all
      from Cons.IH [OF this rest, of "idx + 1"] show ?thesis
        unfolding nodes_loop_call [OF True c] using goes_on by simp
    qed
  qed
qed

lemma nodes_loop_error:
  assumes "Stage (pevent st) = stage" and "I (pevent st) (pworld st)"
    and "nodes_go_on x ctx stage I npre" and "NodeStage node = stage"
    and "node_fails x ctx stage I node err"
  shows "\<exists>e u st2. I e u \<and> Stage e = stage
           \<and> nodes_loop x ctx stage n idx (npre @ node # npost) ok st = NodesError err st2
           \<and> node_call x ctx node e u = (Inl err, pevent st2, pworld st2)"
  using assms(1,2,3)
proof (induction npre arbitrary: idx ok st)
  case Nil
  have True: "Stage (pevent st) = NodeStage node"
    using Nil.prems(1) assms(4) by simp
  obtain r e1 u1 where c: "node_call x ctx node (pevent st) (pworld st) = (r, e1, u1)"
    by (rule node_call_cases)
  have r: "r = Inl err"
    using assms(5) Nil.prems(1,2) c unfolding node_fails_def by fastforce
  show ?case
    using nodes_loop_call [OF True c, of stage n idx npost ok] Nil.prems(1,2) c r
    by (intro exI [of _ "pevent st"] exI [of _ "pworld st"]) simp
next
  case (Cons m npre)
  have rest: "nodes_go_on x ctx stage I npre"
    using Cons.prems(3) by (simp add: nodes_go_on_def)
  show ?case
  proof (cases "Stage (pevent st) = NodeStage m")
    case False
    show ?thesis
      using Cons.IH [OF Cons.prems(1,2) rest, of "idx + 1" ok] nodes_loop_skip [OF False]
      by simp
  next
    case True
    then have ns: "NodeStage m = stage"
      using Cons.prems(1) by simp
    have "\<forall>e u. I e u \<and> Stage e = stage \<longrightarrow>
           (\<exists>ret e1 u1. node_call x ctx m e u = (Inr ret, e1, u1)
              \<and> Stage e1 = stage \<and> I e1 u1
              \<and> \<not> (ret \<and> OnSuccess m = ''next_stage''))"
      using Cons.prems(3) ns unfolding nodes_go_on_def by simp
    then have "\<exists>ret e1 u1. node_call x ctx m (pevent st) (pworld st) = (Inr ret, e1, u1)
              \<and> Stage e1 = stage \<and> I e1 u1
              \<and> \<not> (ret \<and> OnSuccess m = ''next_stage'')"
      using Cons.prems(1,2) by blast
    then obtain ret e1 u1 where c: "node_call x ctx m (pevent st) (pworld st) = (Inr ret, e1, u1)"
      and s: "Stage e1 = stage" and inv: "I e1 u1"
      and go: "\<not> (ret \<and> OnSuccess m = ''next_stage'')"
      by blast
    let ?st2 = "st\<lparr>pevent := e1, pworld := u1,
                 plog := plog st @ [ProcessingNode (rn m) (NodeStage m) idx n (rn m),
                                    NodeRet (rn m) (NodeStage m) (rn m) ret]\<rparr>"
    have step: "nodes_loop x ctx stage n idx ((m # npre) @ node # npost) ok st
        = nodes_loop x ctx stage n (idx + 1) (npre @ node # npost) (ret \<or> ok) ?st2"
      using nodes_loop_call [OF True c, of stage n idx "npre @ node # npost" ok] s go by auto
    have "Stage (pevent ?st2) = stage" "I (pevent ?st2) (pworld ?st2)"
      using s inv by simp_all
    from Cons.IH [OF this rest, of "idx + 1" "ret \<or> ok"] show ?thesis
      unfolding step .
  qed
qed

lemma stages_loop_reach:
  assumes "Stages ctx = pre @ stage # post"
    and "stages_loop x ctx nodes pre (Parse_enter ctx now xp w) = StagesDone st"
  shows "Parse x now ctx xp nodes w
     = (case stages_loop x ctx nodes (stage # post) st of
          StagesReturn err st1 \<Rightarrow> (st1, err)
        | StagesDone st1 \<Rightarrow> (st1\<lparr>pevent := (pevent st1)\<lparr>Process := True\<rparr>\<rparr>, None))"
  by (simp add: Parse_def assms stages_loop_append)

text \<open>
  Claim C2. Let the stage loop reach a configured stage with state \<open>st\<close> (the loop over
  the stages before it ends without a return). If the stage of the event is not ahead of
  that stage and differs from it, \<^verbatim>\<open>Parse\<close> returns nil with \<^verbatim>\<open>Process\<close> false and the
  event otherwise as it was. If the event is at that stage and no node of the stage
  matches (each returns false on the events it is called on, those of an invariant \<open>I\<close>
  that holds at \<open>st\<close>), \<^verbatim>\<open>Parse\<close> returns nil with \<^verbatim>\<open>Process\<close> false. If the event is
  at that stage, the nodes before some node of the stage go on and that node fails with an
  error, \<^verbatim>\<open>Parse\<close> returns that error, with the event and the outside state exactly as
  the failing call left them: no node and no stage after it is run.
\<close>
theorem Parse_stage_failure:
  assumes "Stages ctx = pre @ stage # post"
    and "stages_loop x ctx nodes pre (Parse_enter ctx now xp w) = StagesDone st"
  shows "(\<not> stageidx stage (Stages ctx) < stageidx (Stage (pevent st)) (Stages ctx)
            \<and> Stage (pevent st) \<noteq> stage \<longrightarrow>
            snd (Parse x now ctx xp nodes w) = None
            \<and> pevent (fst (Parse x now ctx xp nodes w)) = (pevent st)\<lparr>Process := False\<rparr>)
    \<and> (Stage (pevent st) = stage \<and> I (pevent st) (pworld st)
            \<and> no_node_matches x ctx stage I nodes \<longrightarrow>
            snd (Parse x now ctx xp nodes w) = None
            \<and> Process (pevent (fst (Parse x now ctx xp nodes w))) = False)
    \<and> (\<forall>npre node npost err.
          Stage (pevent st) = stage \<and> I (pevent st) (pworld st)
            \<and> nodes = npre @ node # npost \<and> nodes_go_on x ctx stage I npre
            \<and> NodeStage node = stage \<and> node_fails x ctx stage I node err \<longrightarrow>
            snd (Parse x now ctx xp nodes w) = Some err
            \<and> (\<exists>e u. I e u \<and> Stage e = stage
                 \<and> node_call x ctx node e u
                     = (Inl err, pevent (fst (Parse x now ctx xp nodes w)),
                        pworld (fst (Parse x now ctx xp nodes w)))))"
proof -
  note P = stages_loop_reach [OF assms]
  let ?st1 = "plogf (NodeStageCurrentStage (Stage (pevent st)) stage) st"
  have behind: "snd (Parse x now ctx xp nodes w) = None
            \<and> pevent (fst (Parse x now ctx xp nodes w)) = (pevent st)\<lparr>Process := False\<rparr>"
    if "\<not> stageidx stage (Stages ctx) < stageidx (Stage (pevent st)) (Stages ctx)"
      and "Stage (pevent st) \<noteq> stage"
    unfolding P stages_loop_behind [OF that] by (simp add: plogf_simps)
  have here: "\<not> stageidx stage (Stages ctx) < stageidx (Stage (pevent st)) (Stages ctx)"
    if "Stage (pevent st) = stage"
    using that by simp
  have nomatch: "snd (Parse x now ctx xp nodes w) = None
            \<and> Process (pevent (fst (Parse x now ctx xp nodes w))) = False"
    if s: "Stage (pevent st) = stage" and i: "I (pevent st) (pworld st)"
      and n: "no_node_matches x ctx stage I nodes"
  proof -
    have "Stage (pevent ?st1) = stage" "I (pevent ?st1) (pworld ?st1)"
      using s i by (simp_all add: plogf_simps)
    from nodes_loop_no_match [OF this n, of "length nodes" 0]
    obtain st2 where "nodes_loop x ctx stage (length nodes) 0 nodes False ?st1 = NodesDone False st2"
      by blast
    then show ?thesis
      unfolding P stages_loop_step [OF here [OF s] s] by (simp add: plogf_simps)
  qed
  have failed: "snd (Parse x now ctx xp nodes w) = Some err
            \<and> (\<exists>e u. I e u \<and> Stage e = stage
                 \<and> node_call x ctx node e u
                     = (Inl err, pevent (fst (Parse x now ctx xp nodes w)),
                        pworld (fst (Parse x now ctx xp nodes w))))"
    if s: "Stage (pevent st) = stage" and i: "I (pevent st) (pworld st)"
      and l: "nodes = npre @ node # npost" and g: "nodes_go_on x ctx stage I npre"
      and ns: "NodeStage node = stage" and f: "node_fails x ctx stage I node err"
    for npre node npost err
  proof -
    have "Stage (pevent ?st1) = stage" "I (pevent ?st1) (pworld ?st1)"
      using s i by (simp_all add: plogf_simps)
    from nodes_loop_error [OF this g ns f, of "length nodes" 0 npost False]
    obtain e u st2 where "I e u" "Stage e = stage"
      "nodes_loop x ctx stage (length nodes) 0 nodes False ?st1 = NodesError err st2"
      "node_call x ctx node e u = (Inl err, pevent st2, pworld st2)"
      unfolding l by blast
    then show ?thesis
      unfolding P stages_loop_step [OF here [OF s] s] by auto
  qed
  show ?thesis
    using behind nomatch failed by blast
qed










lemmas demo_eval = Parse_def Parse_enter_def Let_def plogf_def stageidx_def
  demo_parser_def demo_process_def demo_ctx_def demo_node_def demo_event_def LOG_def







lemma demo_enter:
  "Parse_enter demo_ctx 5 demo_event (0::nat)
     = \<lparr>pevent = demo_event\<lparr>Stage := ''s00-raw'', Process := False, Time := 5,
                              Parsed := Some Map.empty, Enriched := Some Map.empty,
                              Meta := Some Map.empty, Unmarshaled := Some Map.empty\<rparr>,
        plog = [NoStageSetTo ''s00-raw'', InputLine ''Failed password for root''],
        pworld = 0\<rparr>"
  by (simp add: demo_eval)

text \<open>
  The theorem of claim C2 on three lists of nodes: a node of the first stage that does not
  match; a node that does not match, then a node that fails, then a node that would match
  and is not called (two calls are counted); and a node that matches and leaves the event
  in the first stage, so that the event is behind when the loop reaches the second stage.
\<close>
theorem Parse_stage_failure_witness:
  "Stages demo_ctx = [] @ ''s00-raw'' # [''s01-parse'']
   \<and> stages_loop demo_parser demo_ctx [demo_node ''never'' ''s00-raw'' []] []
         (Parse_enter demo_ctx 5 demo_event 0)
       = StagesDone (Parse_enter demo_ctx 5 demo_event 0)
   \<and> Stage (pevent (Parse_enter demo_ctx 5 demo_event (0::nat))) = ''s00-raw''
   \<and> no_node_matches demo_parser demo_ctx ''s00-raw'' (\<lambda>e (u::nat). True)
         [demo_node ''never'' ''s00-raw'' []]
   \<and> snd (Parse demo_parser 5 demo_ctx demo_event [demo_node ''never'' ''s00-raw'' []] 0) = None
   \<and> Process (pevent (fst (Parse demo_parser 5 demo_ctx demo_event
                               [demo_node ''never'' ''s00-raw'' []] 0))) = False
   \<and> nodes_go_on demo_parser demo_ctx ''s00-raw'' (\<lambda>e (u::nat). True)
         [demo_node ''never'' ''s00-raw'' []]
   \<and> node_fails demo_parser demo_ctx ''s00-raw'' (\<lambda>e (u::nat). True)
         (demo_node ''broken'' ''s00-raw'' []) ''grok pattern failed''
   \<and> snd (Parse demo_parser 5 demo_ctx demo_event
            [demo_node ''never'' ''s00-raw'' [], demo_node ''broken'' ''s00-raw'' [],
             demo_node ''syslog-logs'' ''s00-raw'' ''next_stage''] 0)
       = Some ''grok pattern failed''
   \<and> pworld (fst (Parse demo_parser 5 demo_ctx demo_event
            [demo_node ''never'' ''s00-raw'' [], demo_node ''broken'' ''s00-raw'' [],
             demo_node ''syslog-logs'' ''s00-raw'' ''next_stage''] 0)) = 2
   \<and> Stages demo_ctx = [''s00-raw''] @ ''s01-parse'' # []
   \<and> Stage (pevent (stages_state (stages_loop demo_parser demo_ctx
         [demo_node ''syslog-logs'' ''s00-raw'' []] [''s00-raw'']
         (Parse_enter demo_ctx 5 demo_event 0)))) = ''s00-raw''
   \<and> snd (Parse demo_parser 5 demo_ctx demo_event [demo_node ''syslog-logs'' ''s00-raw'' []] 0) = None
   \<and> Process (pevent (fst (Parse demo_parser 5 demo_ctx demo_event
                               [demo_node ''syslog-logs'' ''s00-raw'' []] 0))) = False"
proof -
  let ?E = "Parse_enter demo_ctx 5 demo_event (0::nat)"
  let ?I = "\<lambda>(e::Event) (u::nat). True"
  let ?never = "demo_node ''never'' ''s00-raw'' []"
  let ?broken = "demo_node ''broken'' ''s00-raw'' []"
  let ?syslog = "demo_node ''syslog-logs'' ''s00-raw'' ''next_stage''"
  have S0: "Stages demo_ctx = [] @ ''s00-raw'' # [''s01-parse'']"
    and S1: "Stages demo_ctx = [''s00-raw''] @ ''s01-parse'' # []"
    by (simp_all add: demo_ctx_def)
  have L0: "stages_loop demo_parser demo_ctx nodes [] ?E = StagesDone ?E" for nodes
    by simp
  have st: "Stage (pevent ?E) = ''s00-raw''"
    by (simp add: demo_enter)
  \<comment> \<open>no node of the stage matches\<close>
  have nm: "no_node_matches demo_parser demo_ctx ''s00-raw'' ?I [?never]"
    by (simp add: no_node_matches_def node_call_def demo_parser_def demo_process_def
          demo_node_def demo_ctx_def)
  have never: "snd (Parse demo_parser 5 demo_ctx demo_event [?never] 0) = None
     \<and> Process (pevent (fst (Parse demo_parser 5 demo_ctx demo_event [?never] 0))) = False"
    using Parse_stage_failure [where I = ?I, OF S0 L0 [of "[?never]"]] st nm
    by simp
  \<comment> \<open>a node fails after one that does not match\<close>
  have go: "nodes_go_on demo_parser demo_ctx ''s00-raw'' ?I [?never]"
    by (simp add: nodes_go_on_def node_call_def demo_parser_def demo_process_def
          demo_node_def demo_ctx_def) blast
  have f: "node_fails demo_parser demo_ctx ''s00-raw'' ?I ?broken ''grok pattern failed''"
    by (simp add: node_fails_def node_call_def demo_parser_def demo_process_def
          demo_node_def demo_ctx_def)
  note F = Parse_stage_failure [where I = ?I, OF S0 L0 [of "[?never, ?broken, ?syslog]"],
      THEN conjunct2, THEN conjunct2, rule_format,
      of "[?never]" ?broken "[?syslog]" "''grok pattern failed''"]
  have ns: "NodeStage ?broken = ''s00-raw''"
    by (simp add: demo_node_def)
  have broken: "snd (Parse demo_parser 5 demo_ctx demo_event [?never, ?broken, ?syslog] 0)
       = Some ''grok pattern failed''"
    using F st go f ns by simp
  have calls: "pworld (fst (Parse demo_parser 5 demo_ctx demo_event [?never, ?broken, ?syslog] 0)) = 2"
    by (simp add: demo_eval)
  \<comment> \<open>the event is behind the second stage\<close>
  let ?st = "?E\<lparr>plog := plog ?E @ [NodeStageCurrentStage ''s00-raw'' ''s00-raw'',
                                      ProcessingNode ''syslog-logs'' ''s00-raw'' 0 1 ''syslog-logs'',
                                      NodeRet ''syslog-logs'' ''s00-raw'' ''syslog-logs'' True],
                   pworld := 1\<rparr>"
  have L1: "stages_loop demo_parser demo_ctx [demo_node ''syslog-logs'' ''s00-raw'' []] [''s00-raw''] ?E
              = StagesDone ?st"
    by (simp add: demo_enter) (simp add: demo_eval)
  have st1: "Stage (pevent ?st) = ''s00-raw''"
    by (simp add: demo_enter)
  have idx: "\<not> stageidx ''s01-parse'' (Stages demo_ctx) < stageidx (Stage (pevent ?st)) (Stages demo_ctx)"
    by (simp add: st1) (simp add: demo_ctx_def stageidx_def)
  have behind: "snd (Parse demo_parser 5 demo_ctx demo_event [demo_node ''syslog-logs'' ''s00-raw'' []] 0) = None
     \<and> pevent (fst (Parse demo_parser 5 demo_ctx demo_event [demo_node ''syslog-logs'' ''s00-raw'' []] 0))
         = (pevent ?st)\<lparr>Process := False\<rparr>"
    using Parse_stage_failure [where I = ?I, OF S1 L1] idx st1 by simp
  have v: "Stage (pevent (stages_state (stages_loop demo_parser demo_ctx
         [demo_node ''syslog-logs'' ''s00-raw'' []] [''s00-raw''] ?E))) = ''s00-raw''"
    unfolding L1 by (simp add: demo_enter)
  have n1: "snd (Parse demo_parser 5 demo_ctx demo_event [?never] 0) = None"
    and n2: "Process (pevent (fst (Parse demo_parser 5 demo_ctx demo_event [?never] 0))) = False"
    using never by simp_all
  have b1: "snd (Parse demo_parser 5 demo_ctx demo_event [demo_node ''syslog-logs'' ''s00-raw'' []] 0) = None"
    and b2: "Process (pevent (fst (Parse demo_parser 5 demo_ctx demo_event
                               [demo_node ''syslog-logs'' ''s00-raw'' []] 0))) = False"
    using behind by simp_all
  show ?thesis
    using S0 L0 [of "[?never]"] st nm n1 n2 go f broken calls S1 v b1 b2
    by (intro conjI)
qed

text \<open>
  The theorem of claim C10 on an event injected at a stage that is not configured.
\<close>
theorem Parse_unknown_stage_witness:
  "Stage (demo_event\<lparr>Stage := ''s05-postoverflow''\<rparr>) \<noteq> []
   \<and> Stage (demo_event\<lparr>Stage := ''s05-postoverflow''\<rparr>) \<notin> set (Stages demo_ctx)
   \<and> Stages demo_ctx \<noteq> []
   \<and> stageidx ''s05-postoverflow'' (Stages demo_ctx) = - 1
   \<and> snd (Parse demo_parser 5 demo_ctx (demo_event\<lparr>Stage := ''s05-postoverflow''\<rparr>)
            [demo_node ''syslog-logs'' ''s00-raw'' ''next_stage''] 0) = None
   \<and> Process (pevent (fst (Parse demo_parser 5 demo_ctx (demo_event\<lparr>Stage := ''s05-postoverflow''\<rparr>)
            [demo_node ''syslog-logs'' ''s00-raw'' ''next_stage''] 0))) = False
   \<and> pworld (fst (Parse demo_parser 5 demo_ctx (demo_event\<lparr>Stage := ''s05-postoverflow''\<rparr>)
            [demo_node ''syslog-logs'' ''s00-raw'' ''next_stage''] 0)) = 0
   \<and> plog (fst (Parse demo_parser 5 demo_ctx (demo_event\<lparr>Stage := ''s05-postoverflow''\<rparr>)
            [demo_node ''syslog-logs'' ''s00-raw'' ''next_stage''] 0))
       = [InputLine ''Failed password for root'',
          NodeStageCurrentStage ''s05-postoverflow'' ''s00-raw'',
          EventNotParsed ''s00-raw'' ''s05-postoverflow'']"
proof -
  have h: "Stage (demo_event\<lparr>Stage := ''s05-postoverflow''\<rparr>) \<noteq> []"
    "Stage (demo_event\<lparr>Stage := ''s05-postoverflow''\<rparr>) \<notin> set (Stages demo_ctx)"
    "Stages demo_ctx \<noteq> []"
    by (simp_all add: demo_ctx_def)
  let ?ev = "demo_event\<lparr>Stage := ''s05-postoverflow''\<rparr>"
  let ?P = "Parse demo_parser 5 demo_ctx ?ev [demo_node ''syslog-logs'' ''s00-raw'' ''next_stage''] 0"
  note T = Parse_unknown_stage [OF h, of demo_parser 5
            "[demo_node ''syslog-logs'' ''s00-raw'' ''next_stage'']" 0]
  have a: "stageidx ''s05-postoverflow'' (Stages demo_ctx) = - 1"
    using T [THEN conjunct1] by simp
  have b: "snd ?P = None"
    using T [THEN conjunct2, THEN conjunct1] by simp
  have c: "Process (pevent (fst ?P)) = False"
    using T [THEN conjunct2, THEN conjunct2, THEN conjunct1] .
  have d: "pworld (fst ?P) = 0"
    using T [THEN conjunct2, THEN conjunct2, THEN conjunct2, THEN conjunct2, THEN conjunct1] .
  have e: "plog (fst ?P)
       = [InputLine ''Failed password for root'',
          NodeStageCurrentStage ''s05-postoverflow'' ''s00-raw'',
          EventNotParsed ''s00-raw'' ''s05-postoverflow'']"
    using T [THEN conjunct2, THEN conjunct2, THEN conjunct2, THEN conjunct2, THEN conjunct2]
    by (simp add: demo_ctx_def demo_event_def LOG_def)
  show ?thesis
    using h a b c d e by (intro conjI)
qed

section \<open>Properties of ProcessStatics and CheckExprWL\<close>








lemma CheckExprWL_loop_pre:
  assumes "\<forall>e \<in> set pre. \<exists>v. Run x e env = Inr v \<and> v \<noteq> GBool True"
    and "eidx + length pre \<le> length (Exprs (NodeWhitelist n))"
  shows "CheckExprWL_loop x n env eidx (pre @ rest) False st
     = CheckExprWL_loop x n env (eidx + length pre) rest False
         (st\<lparr>wlog := wlog st @ nonbool_lines x n env eidx pre\<rparr>)"
  using assms
proof (induction pre arbitrary: eidx st)
  case Nil
  then show ?case by simp
next
  case (Cons e pre)
  obtain v where v: "Run x e env = Inr v" "v \<noteq> GBool True"
    using Cons.prems(1) by auto
  have idx: "eidx < length (Exprs (NodeWhitelist n))"
    and rest: "(eidx + 1) + length pre \<le> length (Exprs (NodeWhitelist n))"
    using Cons.prems(2) by simp_all
  have pre: "\<forall>e \<in> set pre. \<exists>v. Run x e env = Inr v \<and> v \<noteq> GBool True"
    using Cons.prems(1) by simp
  note ih = Cons.IH [OF pre rest]
  show ?case
  proof (cases v)
    case (GBool b)
    then have "b = False" using v by simp
    then show ?thesis
      using v GBool ih [of st] by simp
  qed (use v idx ih in \<open>simp_all add: wlogf_def\<close>)
qed


lemma CheckExprWL_loop_True:
  "CheckExprWL_loop x n env eidx es True st = WlLoopEnd True st"
  by (cases es) simp_all

text \<open>
  Claim C9, for a whitelist as \<^verbatim>\<open>CompileWLs\<close> builds it (no more compiled expressions
  than sources). With no compiled expression the call returns false and nil and changes
  nothing. Otherwise the hit counter is incremented once and the expressions are run in
  order. Let \<open>pre\<close> be expressions that run without error and do not return true; each
  value among them that is not a boolean adds an error line and nothing else. If the
  next expression returns true the call returns true and nil, and increments the
  counter of successful hits; if it fails the call returns false and its error; in both
  cases the expressions after it are not run. If no expression is left the call returns
  false and nil.
\<close>
theorem CheckExprWL_outcomes:
  assumes "length (B_Exprs (NodeWhitelist n)) \<le> length (Exprs (NodeWhitelist n))"
    and "B_Exprs (NodeWhitelist n) = pre @ rest"
    and "\<forall>e \<in> set pre. \<exists>v. Run x e env = Inr v \<and> v \<noteq> GBool True"
  shows "(B_Exprs (NodeWhitelist n) = [] \<longrightarrow>
            CheckExprWL x n env p st = (WlReturned False None, st))
    \<and> (\<forall>e post. rest = e # post \<and> Run x e env = Inr (GBool True) \<longrightarrow>
          CheckExprWL x n env p st
            = (WlReturned True None,
               st\<lparr>NodesWlHits := (NodesWlHits st)(wl_labels n p := NodesWlHits st (wl_labels n p) + 1),
                   NodesWlHitsOk := (NodesWlHitsOk st)(wl_labels n p := NodesWlHitsOk st (wl_labels n p) + 1),
                   wlog := wlog st @ nonbool_lines x n env 0 pre
                           @ [WhitelistedByExpr (Reason (NodeWhitelist n))]\<rparr>))
    \<and> (\<forall>e post err. rest = e # post \<and> Run x e env = Inl err \<longrightarrow>
          CheckExprWL x n env p st
            = (WlReturned False (Some err),
               st\<lparr>NodesWlHits := (NodesWlHits st)(wl_labels n p := NodesWlHits st (wl_labels n p) + 1),
                   wlog := wlog st @ nonbool_lines x n env 0 pre
                           @ [FailedToRunWhitelistExpr err, EventLeavingNodeKo]\<rparr>))
    \<and> (rest = [] \<and> pre \<noteq> [] \<longrightarrow>
          CheckExprWL x n env p st
            = (WlReturned False None,
               st\<lparr>NodesWlHits := (NodesWlHits st)(wl_labels n p := NodesWlHits st (wl_labels n p) + 1),
                   wlog := wlog st @ nonbool_lines x n env 0 pre\<rparr>))"
proof -
  let ?st1 = "st\<lparr>NodesWlHits := (NodesWlHits st)(wl_labels n p := NodesWlHits st (wl_labels n p) + 1)\<rparr>"
  let ?st2 = "?st1\<lparr>wlog := wlog ?st1 @ nonbool_lines x n env 0 pre\<rparr>"
  have len: "0 + length pre \<le> length (Exprs (NodeWhitelist n))"
    using assms(1,2) by simp
  have loop: "CheckExprWL_loop x n env 0 (B_Exprs (NodeWhitelist n)) False ?st1
     = CheckExprWL_loop x n env (0 + length pre) rest False ?st2"
    unfolding assms(2) by (rule CheckExprWL_loop_pre [OF assms(3) len])
  note loop' = loop [simplified]
  have none: "CheckExprWL x n env p st = (WlReturned False None, st)"
    if "B_Exprs (NodeWhitelist n) = []"
    using that by (simp add: CheckExprWL_def ContainsExprLists_def)
  have ne: "ContainsExprLists n" if "rest \<noteq> [] \<or> pre \<noteq> []"
    using that assms(2) by (auto simp: ContainsExprLists_def)
  have hit: "CheckExprWL x n env p st
            = (WlReturned True None,
               st\<lparr>NodesWlHits := (NodesWlHits st)(wl_labels n p := NodesWlHits st (wl_labels n p) + 1),
                   NodesWlHitsOk := (NodesWlHitsOk st)(wl_labels n p := NodesWlHitsOk st (wl_labels n p) + 1),
                   wlog := wlog st @ nonbool_lines x n env 0 pre
                           @ [WhitelistedByExpr (Reason (NodeWhitelist n))]\<rparr>)"
    if "rest = e # post" and "Run x e env = Inr (GBool True)" for e post
    using that ne by (simp add: CheckExprWL_def Let_def loop' CheckExprWL_loop_True wlogf_def)
  have err: "CheckExprWL x n env p st
            = (WlReturned False (Some err),
               st\<lparr>NodesWlHits := (NodesWlHits st)(wl_labels n p := NodesWlHits st (wl_labels n p) + 1),
                   wlog := wlog st @ nonbool_lines x n env 0 pre
                           @ [FailedToRunWhitelistExpr err, EventLeavingNodeKo]\<rparr>)"
    if "rest = e # post" and "Run x e env = Inl err" for e post err
    using that ne by (simp add: CheckExprWL_def Let_def loop' wlogf_def)
  have miss: "CheckExprWL x n env p st
            = (WlReturned False None,
               st\<lparr>NodesWlHits := (NodesWlHits st)(wl_labels n p := NodesWlHits st (wl_labels n p) + 1),
                   wlog := wlog st @ nonbool_lines x n env 0 pre\<rparr>)"
    if "rest = []" and "pre \<noteq> []"
    using that ne by (simp add: CheckExprWL_def Let_def loop')
  show ?thesis
    using none hit err miss by blast
qed







lemmas demo_wl_eval = demo_parser_def demo_run_def demo_node_def demo_wl_state_def

text \<open>
  The theorem of claim C9 on four expressions: the first returns an integer, the second
  false, the third true, and the fourth, which would fail, is not run.
\<close>
theorem CheckExprWL_outcomes_witness:
  "length (B_Exprs (NodeWhitelist (demo_node ''ssh-wl'' ''s02-enrich'' [])))
     \<le> length (Exprs (NodeWhitelist (demo_node ''ssh-wl'' ''s02-enrich'' [])))
   \<and> B_Exprs (NodeWhitelist (demo_node ''ssh-wl'' ''s02-enrich'' []))
       = [''count'', ''no''] @ [''flag'', ''boom'']
   \<and> Run demo_parser ''count'' [''evt'' \<mapsto> demo_event] = Inr (GInt (- 42))
   \<and> Run demo_parser ''no'' [''evt'' \<mapsto> demo_event] = Inr (GBool False)
   \<and> Run demo_parser ''flag'' [''evt'' \<mapsto> demo_event] = Inr (GBool True)
   \<and> fst (CheckExprWL demo_parser (demo_node ''ssh-wl'' ''s02-enrich'' []) [''evt'' \<mapsto> demo_event]
            demo_event demo_wl_state) = WlReturned True None
   \<and> wlog (snd (CheckExprWL demo_parser (demo_node ''ssh-wl'' ''s02-enrich'' [])
                   [''evt'' \<mapsto> demo_event] demo_event demo_wl_state))
       = [UnexpectedWhitelistType (GInt (- 42)) ''count'', WhitelistedByExpr ''internal scanner'']
   \<and> NodesWlHits (snd (CheckExprWL demo_parser (demo_node ''ssh-wl'' ''s02-enrich'' [])
                   [''evt'' \<mapsto> demo_event] demo_event demo_wl_state))
         (wl_labels (demo_node ''ssh-wl'' ''s02-enrich'' []) demo_event) = 1
   \<and> NodesWlHitsOk (snd (CheckExprWL demo_parser (demo_node ''ssh-wl'' ''s02-enrich'' [])
                   [''evt'' \<mapsto> demo_event] demo_event demo_wl_state))
         (wl_labels (demo_node ''ssh-wl'' ''s02-enrich'' []) demo_event) = 1"
proof -
  let ?n = "demo_node ''ssh-wl'' ''s02-enrich'' []"
  let ?env = "[''evt'' \<mapsto> demo_event]"
  have len: "length (B_Exprs (NodeWhitelist ?n)) \<le> length (Exprs (NodeWhitelist ?n))"
    and split: "B_Exprs (NodeWhitelist ?n) = [''count'', ''no''] @ [''flag'', ''boom'']"
    by (simp_all add: demo_node_def)
  have c: "Run demo_parser ''count'' ?env = Inr (GInt (- 42))"
    and no: "Run demo_parser ''no'' ?env = Inr (GBool False)"
    and fl: "Run demo_parser ''flag'' ?env = Inr (GBool True)"
    by (simp_all add: demo_parser_def demo_run_def)
  have pre: "\<forall>e \<in> set [''count'', ''no'']. \<exists>v. Run demo_parser e ?env = Inr v \<and> v \<noteq> GBool True"
    using c no by simp
  have reason: "Reason (NodeWhitelist ?n) = ''internal scanner''"
    by (simp add: demo_node_def)
  have R: "CheckExprWL demo_parser ?n ?env demo_event demo_wl_state
     = (WlReturned True None,
        demo_wl_state\<lparr>NodesWlHits := (NodesWlHits demo_wl_state)
                         (wl_labels ?n demo_event := NodesWlHits demo_wl_state (wl_labels ?n demo_event) + 1),
                   NodesWlHitsOk := (NodesWlHitsOk demo_wl_state)
                         (wl_labels ?n demo_event := NodesWlHitsOk demo_wl_state (wl_labels ?n demo_event) + 1),
                   wlog := wlog demo_wl_state @ nonbool_lines demo_parser ?n ?env 0 [''count'', ''no'']
                           @ [WhitelistedByExpr (Reason (NodeWhitelist ?n))]\<rparr>)"
    using CheckExprWL_outcomes [OF len split pre, of demo_event demo_wl_state] fl by blast
  have r1: "fst (CheckExprWL demo_parser ?n ?env demo_event demo_wl_state) = WlReturned True None"
    and r2: "wlog (snd (CheckExprWL demo_parser ?n ?env demo_event demo_wl_state))
       = [UnexpectedWhitelistType (GInt (- 42)) ''count'', WhitelistedByExpr ''internal scanner'']"
    and r3: "NodesWlHits (snd (CheckExprWL demo_parser ?n ?env demo_event demo_wl_state))
         (wl_labels ?n demo_event) = 1"
    and r4: "NodesWlHitsOk (snd (CheckExprWL demo_parser ?n ?env demo_event demo_wl_state))
         (wl_labels ?n demo_event) = 1"
    unfolding R by (simp_all add: c no reason demo_wl_state_def) (simp add: demo_node_def)
  show ?thesis
    using len split c no fl r1 r2 r3 r4 by (intro conjI)
qed

end
